theory Spec2Isabelle
  imports Complex_Main "HOL-Library.Monad_Syntax"
begin

section \<open>The autoregressive predictor of go-autoregression (ar\_model.go)\<close>

text \<open>
  The embedding follows \<^verbatim>\<open>ar_model.go\<close> function by function.

  \<^item> Go's \<^verbatim>\<open>int\<close> is \<^typ>\<open>int\<close>. The integers of the code are slice lengths, slice
    indices, lags and the horizon; a computation that would wrap around 64 bits asks for
    a slice that no machine can allocate, so wrap-around is left out together with the
    exhaustion of memory.
  \<^item> \<^verbatim>\<open>float64\<close> is a type variable \<open>'a\<close>. The definitions use only the syntax of
    the operations the code applies (\<open>0\<close>, \<open>+\<close>, \<open>-\<close>, \<open>*\<close>, \<open>\<le>\<close>); the conversion
    \<^verbatim>\<open>float64(i)\<close> is a parameter \<open>float64\<close>. A theorem stated for every \<open>'a\<close> therefore
    holds for every interpretation of these operations, rounding included. Theorems that
    need algebraic laws say so in the sort of \<open>'a\<close> (exact arithmetic).
  \<^item> A slice \<^verbatim>\<open>[]float64\<close> is a list. A run-time panic (index out of range, negative
    length, a gonum shape panic) is the value \<open>None\<close> of an outer \<open>option\<close>; the
    \<open>do\<close> blocks propagate it as the unwinding stack does.
  \<^item> A Go result pair \<^verbatim>\<open>(value, error)\<close> is a pair of options: \<open>None\<close> is \<^verbatim>\<open>nil\<close>.
\<close>

subsection \<open>Slices\<close>

definition make_slice :: "int \<Rightarrow> ('a::zero) list option" where
  \<comment> \<open>\<^verbatim>\<open>make([]float64, n)\<close>: zero-filled; a negative length panics.\<close>
  "make_slice n = (if n < 0 then None else Some (replicate (nat n) 0))"

definition copy_slice :: "'a list \<Rightarrow> 'a list \<Rightarrow> 'a list" where
  \<comment> \<open>\<^verbatim>\<open>copy(dst, src)\<close>: the first \<open>min (len dst) (len src)\<close> elements are overwritten.\<close>
  "copy_slice dst src = take (length dst) src @ drop (length src) dst"

definition slice_index :: "'a list \<Rightarrow> int \<Rightarrow> 'a option" where
  \<comment> \<open>\<^verbatim>\<open>xs[i]\<close> as a read.\<close>
  "slice_index xs i = (if 0 \<le> i \<and> i < int (length xs) then Some (xs ! nat i) else None)"

definition slice_assign :: "'a list \<Rightarrow> int \<Rightarrow> 'a \<Rightarrow> 'a list option" where
  \<comment> \<open>\<^verbatim>\<open>xs[i] = v\<close>.\<close>
  "slice_assign xs i v =
     (if 0 \<le> i \<and> i < int (length xs) then Some (xs[nat i := v]) else None)"

definition slice_from :: "'a list \<Rightarrow> int \<Rightarrow> 'a list option" where
  \<comment> \<open>\<^verbatim>\<open>xs[k:]\<close>.\<close>
  "slice_from xs k = (if 0 \<le> k \<and> k \<le> int (length xs) then Some (drop (nat k) xs) else None)"

subsection \<open>Parameters, predictor, errors\<close>

record 'a ModelParameters =
  AutoregressiveLags :: int
  ExternalInputLags :: int
  StepSize :: 'a

record 'a Predictor =
  Data :: "'a list list"
  Params :: "'a ModelParameters"

text \<open>
  The errors of gonum's \<^verbatim>\<open>mat\<close> package that the code tells apart: the value
  \<^verbatim>\<open>mat.ErrSingular\<close> and every other error. \<^verbatim>\<open>Dense.Inverse\<close> reports a singular or
  ill-conditioned matrix with a \<^verbatim>\<open>mat.Condition\<close> error (infinite for an exactly singular
  matrix, the condition number when it exceeds \<open>10\<^sup>1\<^sup>6\<close>); that is an \<open>ErrOther\<close>.
\<close>

datatype mat_error = ErrSingular | ErrOther

text \<open>
  The errors of the package, one constructor for each \<^verbatim>\<open>fmt.Errorf\<close> of the source;
  \<open>%w\<close> wraps the argument. \<open>ErrMat\<close> is an error of gonum handed on as it is.
\<close>

datatype error =
    ErrLags
  | ErrStepSize
  | ErrNotEnoughData
  | ErrPhiMatrix
  | ErrMat mat_error
  | ErrInversion mat_error
  | ErrTheta error

definition NewPredictor ::
  "'a list list \<Rightarrow> ('a::{zero,ord}) ModelParameters \<Rightarrow> 'a Predictor option \<times> error option" where
  "NewPredictor data params =
     (if AutoregressiveLags params \<le> 0 \<or> ExternalInputLags params < 0 then (None, Some ErrLags)
      else if StepSize params \<le> 0 then (None, Some ErrStepSize)
      else (Some \<lparr>Data = data, Params = params\<rparr>, None))"

subsection \<open>The time axis\<close>

function extend_loop ::
  "(int \<Rightarrow> 'a::{plus,times}) \<Rightarrow> 'a list \<Rightarrow> int \<Rightarrow> int \<Rightarrow> 'a \<Rightarrow> 'a \<Rightarrow> int \<Rightarrow> 'a list option" where
  "extend_loop float64 pl n numToPredict lastTimeValue stepSize i =
     (if i < numToPredict then
        do {
          pl' \<leftarrow> slice_assign pl (n + i) (lastTimeValue + float64 (i + 1) * stepSize);
          extend_loop float64 pl' n numToPredict lastTimeValue stepSize (i + 1)
        }
      else Some pl)"
  by pat_completeness auto
termination
  by (relation "measure (\<lambda>(f, pl, n, k, l, s, i). nat (k - i))") auto

definition extendTimeValues ::
  "(int \<Rightarrow> 'a::{zero,plus,times}) \<Rightarrow> 'a list \<Rightarrow> int \<Rightarrow> 'a \<Rightarrow> 'a list option" where
  "extendTimeValues float64 timeValues numToPredict stepSize =
     do {
       pl \<leftarrow> make_slice (int (length timeValues) + numToPredict);
       let pl = copy_slice pl timeValues;
       lastTimeValue \<leftarrow> slice_index timeValues (int (length timeValues) - 1);
       extend_loop float64 pl (int (length timeValues)) numToPredict lastTimeValue stepSize 0
     }"

subsection \<open>The time axis once more, on a store\<close>

text \<open>
  Whether the result of \<^verbatim>\<open>extendTimeValues\<close> shares memory with its argument cannot be
  read off a list. Here the same function runs on a store: the store is the list of the
  arrays allocated so far, an array's address is its position, and a slice is an address
  with an offset and a length. \<^verbatim>\<open>make\<close> appends a new array.
\<close>

type_synonym 'a heap = "'a list list"

record slice_ref =
  addr :: nat
  off :: nat
  len :: nat

definition valid_ref :: "'a heap \<Rightarrow> slice_ref \<Rightarrow> bool" where
  "valid_ref h s = (addr s < length h \<and> off s + len s \<le> length (h ! addr s))"

definition contents :: "'a heap \<Rightarrow> slice_ref \<Rightarrow> 'a list" where
  "contents h s = take (len s) (drop (off s) (h ! addr s))"

definition heap_make :: "('a::zero) heap \<Rightarrow> int \<Rightarrow> ('a heap \<times> slice_ref) option" where
  "heap_make h n =
     (if n < 0 then None
      else Some (h @ [replicate (nat n) 0], \<lparr>addr = length h, off = 0, len = nat n\<rparr>))"

definition heap_copy :: "'a heap \<Rightarrow> slice_ref \<Rightarrow> slice_ref \<Rightarrow> 'a heap" where
  "heap_copy h dst src =
     (let k = min (len dst) (len src); a = h ! addr dst
      in h[addr dst := take (off dst) a @ take k (contents h src) @ drop (off dst + k) a])"

definition heap_index :: "'a heap \<Rightarrow> slice_ref \<Rightarrow> int \<Rightarrow> 'a option" where
  "heap_index h s i =
     (if 0 \<le> i \<and> i < int (len s) then Some (h ! addr s ! (off s + nat i)) else None)"

definition heap_assign :: "'a heap \<Rightarrow> slice_ref \<Rightarrow> int \<Rightarrow> 'a \<Rightarrow> 'a heap option" where
  "heap_assign h s i v =
     (if 0 \<le> i \<and> i < int (len s)
      then Some (h[addr s := (h ! addr s)[off s + nat i := v]]) else None)"

function extend_loop_heap ::
  "(int \<Rightarrow> 'a::{plus,times}) \<Rightarrow> 'a heap \<Rightarrow> slice_ref \<Rightarrow> int \<Rightarrow> int \<Rightarrow> 'a \<Rightarrow> 'a \<Rightarrow> int
     \<Rightarrow> 'a heap option" where
  "extend_loop_heap float64 h pl n numToPredict lastTimeValue stepSize i =
     (if i < numToPredict then
        do {
          h' \<leftarrow> heap_assign h pl (n + i) (lastTimeValue + float64 (i + 1) * stepSize);
          extend_loop_heap float64 h' pl n numToPredict lastTimeValue stepSize (i + 1)
        }
      else Some h)"
  by pat_completeness auto
termination
  by (relation "measure (\<lambda>(f, h, pl, n, k, l, s, i). nat (k - i))") auto

definition extendTimeValues_heap ::
  "(int \<Rightarrow> 'a::{zero,plus,times}) \<Rightarrow> 'a heap \<Rightarrow> slice_ref \<Rightarrow> int \<Rightarrow> 'a
     \<Rightarrow> ('a heap \<times> slice_ref) option" where
  "extendTimeValues_heap float64 h timeValues numToPredict stepSize =
     do {
       (h1, pl) \<leftarrow> heap_make h (int (len timeValues) + numToPredict);
       let h2 = heap_copy h1 pl timeValues;
       lastTimeValue \<leftarrow> heap_index h2 timeValues (int (len timeValues) - 1);
       h3 \<leftarrow> extend_loop_heap float64 h2 pl (int (len timeValues)) numToPredict
               lastTimeValue stepSize 0;
       Some (h3, pl)
     }"

subsection \<open>Dense matrices of gonum\<close>

text \<open>
  The part of \<^verbatim>\<open>gonum.org/v1/gonum/mat\<close> that the code calls. A \<^verbatim>\<open>*mat.Dense\<close> is the
  list of its rows; gonum only ever builds matrices with at least one row and one
  column, all rows of one length (\<open>wf_dense\<close>). The operations panic as gonum documents:
  on a dimension that is not positive, on an index out of range, on a shape mismatch.
\<close>

type_synonym 'a dense = "'a list list"

definition wf_dense :: "'a dense \<Rightarrow> bool" where
  "wf_dense M = (M \<noteq> [] \<and> hd M \<noteq> [] \<and> (\<forall>r \<in> set M. length r = length (hd M)))"

definition Dims :: "'a dense \<Rightarrow> int \<times> int" where
  "Dims M = (int (length M), int (length (hd M)))"

definition NewDense_nil :: "int \<Rightarrow> int \<Rightarrow> ('a::zero) dense option" where
  \<comment> \<open>\<^verbatim>\<open>mat.NewDense(r, c, nil)\<close>\<close>
  "NewDense_nil r c =
     (if r \<le> 0 \<or> c \<le> 0 then None else Some (replicate (nat r) (replicate (nat c) 0)))"

definition NewDense :: "int \<Rightarrow> int \<Rightarrow> 'a list \<Rightarrow> 'a dense option" where
  \<comment> \<open>\<^verbatim>\<open>mat.NewDense(r, c, data)\<close>, \<open>data\<close> in row-major order\<close>
  "NewDense r c data =
     (if r \<le> 0 \<or> c \<le> 0 \<or> int (length data) \<noteq> r * c then None
      else Some (map (\<lambda>i. take (nat c) (drop (i * nat c) data)) [0..<nat r]))"

definition SetRow :: "'a dense \<Rightarrow> int \<Rightarrow> 'a list \<Rightarrow> 'a dense option" where
  "SetRow M i src =
     (if i < 0 \<or> fst (Dims M) \<le> i then None
      else if int (length src) \<noteq> snd (Dims M) then None
      else Some (M[nat i := src]))"

definition At :: "'a dense option \<Rightarrow> int \<Rightarrow> int \<Rightarrow> 'a option" where
  \<comment> \<open>\<^verbatim>\<open>m.At(i, j)\<close>; the receiver is a pointer, \<open>None\<close> is \<^verbatim>\<open>nil\<close>\<close>
  "At m i j =
     (case m of
        None \<Rightarrow> None
      | Some M \<Rightarrow>
          if 0 \<le> i \<and> i < fst (Dims M) \<and> 0 \<le> j \<and> j < snd (Dims M)
          then Some (M ! nat i ! nat j) else None)"

definition column :: "'a dense \<Rightarrow> nat \<Rightarrow> 'a list" where
  "column M j = map (\<lambda>r. r ! j) M"

definition T :: "'a dense \<Rightarrow> 'a dense" where
  "T M = map (column M) [0..<length (hd M)]"

definition dot :: "('a::{zero,plus,times}) list \<Rightarrow> 'a list \<Rightarrow> 'a" where
  "dot xs ys = foldl (\<lambda>s (x, y). s + x * y) 0 (zip xs ys)"

definition mat_mul :: "('a::{zero,plus,times}) dense \<Rightarrow> 'a dense \<Rightarrow> 'a dense" where
  "mat_mul A B = map (\<lambda>r. map (\<lambda>j. dot r (column B j)) [0..<length (hd B)]) A"

definition Mul :: "('a::{zero,plus,times}) dense \<Rightarrow> 'a dense \<Rightarrow> 'a dense \<Rightarrow> 'a dense option" where
  \<comment> \<open>\<^verbatim>\<open>m.Mul(a, b)\<close> with receiver \<open>m\<close>\<close>
  "Mul m A B =
     (if snd (Dims A) \<noteq> fst (Dims B) then None
      else if Dims m \<noteq> (fst (Dims A), snd (Dims B)) then None
      else Some (mat_mul A B))"

text \<open>
  \<^verbatim>\<open>m.Inverse(a)\<close> overwrites the receiver \<open>m\<close> and returns an error value. Its numerical
  algorithm is gonum's and is not part of this repository: it is the parameter
  \<open>Inverse\<close>, which gives, for the matrix \<open>a\<close>, the entries written to the receiver and
  the error returned. The receiver keeps its shape. By gonum's documentation the error
  is \<^verbatim>\<open>nil\<close> or a \<^verbatim>\<open>mat.Condition\<close>, never \<^verbatim>\<open>mat.ErrSingular\<close>.
\<close>

type_synonym 'a inverse = "'a dense \<Rightarrow> (nat \<Rightarrow> nat \<Rightarrow> 'a) \<times> mat_error option"

definition tabulate :: "nat \<Rightarrow> nat \<Rightarrow> (nat \<Rightarrow> nat \<Rightarrow> 'a) \<Rightarrow> 'a dense" where
  "tabulate r c e = map (\<lambda>i. map (\<lambda>j. e i j) [0..<c]) [0..<r]"

definition Inverse_into ::
  "'a inverse \<Rightarrow> 'a dense \<Rightarrow> 'a dense \<Rightarrow> ('a dense \<times> mat_error option) option" where
  "Inverse_into Inverse m a =
     (if fst (Dims a) \<noteq> snd (Dims a) then None
      else if Dims m \<noteq> Dims a then None
      else Some (tabulate (length m) (length (hd m)) (fst (Inverse a)), snd (Inverse a)))"

subsection \<open>The design matrix\<close>

function phi_values_loop :: "('a::uminus) list \<Rightarrow> int \<Rightarrow> int \<Rightarrow> 'a list \<Rightarrow> int \<Rightarrow> 'a list option" where
  "phi_values_loop dataValues actualIndex na row j =
     (if j \<le> na then
        if actualIndex - j \<ge> 0 then
          do {
            v \<leftarrow> slice_index dataValues (actualIndex - j);
            row' \<leftarrow> slice_assign row (j - 1) (- v);
            phi_values_loop dataValues actualIndex na row' (j + 1)
          }
        else phi_values_loop dataValues actualIndex na row (j + 1)
      else Some row)"
  by pat_completeness auto
termination
  by (relation "measure (\<lambda>(d, a, na, row, j). nat (na + 1 - j))") auto

function phi_inputs_loop :: "'a list \<Rightarrow> int \<Rightarrow> int \<Rightarrow> int \<Rightarrow> 'a list \<Rightarrow> int \<Rightarrow> 'a list option" where
  "phi_inputs_loop timeValues actualIndex na nb row j =
     (if j \<le> nb then
        if actualIndex - j \<ge> 0 then
          do {
            v \<leftarrow> slice_index timeValues (actualIndex - j);
            row' \<leftarrow> slice_assign row (na + j) v;
            phi_inputs_loop timeValues actualIndex na nb row' (j + 1)
          }
        else phi_inputs_loop timeValues actualIndex na nb row (j + 1)
      else Some row)"
  by pat_completeness auto
termination
  by (relation "measure (\<lambda>(t, a, na, nb, row, j). nat (nb + 1 - j))") auto

function phi_rows_loop ::
  "('a::{zero,uminus}) list \<Rightarrow> 'a list \<Rightarrow> int \<Rightarrow> int \<Rightarrow> int \<Rightarrow> int \<Rightarrow> int \<Rightarrow> 'a dense \<Rightarrow> int
     \<Rightarrow> 'a dense option" where
  "phi_rows_loop dataValues timeValues na nb m ncols numRows phi i =
     (if i < numRows then
        do {
          row \<leftarrow> make_slice ncols;
          row \<leftarrow> phi_values_loop dataValues (i + m) na row 1;
          row \<leftarrow> phi_inputs_loop timeValues (i + m) na nb row 0;
          phi' \<leftarrow> SetRow phi i row;
          phi_rows_loop dataValues timeValues na nb m ncols numRows phi' (i + 1)
        }
      else Some phi)"
  by pat_completeness auto
termination
  by (relation "measure (\<lambda>(d, t, na, nb, m, ncols, numRows, phi, i). nat (numRows - i))") auto

definition constructPhiMatrix ::
  "('a::{zero,uminus}) list \<Rightarrow> 'a list \<Rightarrow> int \<Rightarrow> int \<Rightarrow> int \<Rightarrow> 'a dense option option" where
  \<comment> \<open>The inner \<open>option\<close> is the pointer returned: \<open>None\<close> is \<^verbatim>\<open>nil\<close>.\<close>
  "constructPhiMatrix dataValues timeValues na nb m =
     (let ncols = na + nb + 1;
          numRows = int (length dataValues) - m
      in if numRows \<le> 0 then Some None
         else do {
           phi \<leftarrow> NewDense_nil numRows ncols;
           phi \<leftarrow> phi_rows_loop dataValues timeValues na nb m ncols numRows phi 0;
           Some (Some phi)
         })"

subsection \<open>The recursive forecast\<close>

function predict_values_loop ::
  "('a::{minus,times}) list \<Rightarrow> 'a dense option \<Rightarrow> int \<Rightarrow> int \<Rightarrow> int \<Rightarrow> 'a \<Rightarrow> 'a option" where
  "predict_values_loop yAp th i na j acc =
     (if j \<le> na then
        if i - j \<ge> 0 then
          do {
            y \<leftarrow> slice_index yAp (i - j);
            t \<leftarrow> At th (j - 1) 0;
            predict_values_loop yAp th i na (j + 1) (acc - y * t)
          }
        else predict_values_loop yAp th i na (j + 1) acc
      else Some acc)"
  by pat_completeness auto
termination
  by (relation "measure (\<lambda>(y, th, i, na, j, s). nat (na + 1 - j))") auto

function predict_inputs_loop ::
  "('a::{plus,times}) list \<Rightarrow> 'a dense option \<Rightarrow> int \<Rightarrow> int \<Rightarrow> int \<Rightarrow> int \<Rightarrow> 'a \<Rightarrow> 'a option" where
  "predict_inputs_loop pl th i na nb j acc =
     (if j \<le> nb then
        if i - j \<ge> 0 then
          do {
            p \<leftarrow> slice_index pl (i - j);
            t \<leftarrow> At th (na + j) 0;
            predict_inputs_loop pl th i na nb (j + 1) (acc + p * t)
          }
        else predict_inputs_loop pl th i na nb (j + 1) acc
      else Some acc)"
  by pat_completeness auto
termination
  by (relation "measure (\<lambda>(p, th, i, na, nb, j, s). nat (nb + 1 - j))") auto

function predict_loop ::
  "('a::{zero,plus,minus,times}) list \<Rightarrow> 'a dense option \<Rightarrow> int \<Rightarrow> int \<Rightarrow> 'a list \<Rightarrow> int
     \<Rightarrow> 'a list option" where
  "predict_loop pl th na nb yAp i =
     (if i < int (length pl) then
        do {
          acc \<leftarrow> predict_values_loop yAp th i na 1 0;
          acc \<leftarrow> predict_inputs_loop pl th i na nb 0 acc;
          yAp' \<leftarrow> slice_assign yAp i acc;
          predict_loop pl th na nb yAp' (i + 1)
        }
      else Some yAp)"
  by pat_completeness auto
termination
  by (relation "measure (\<lambda>(pl, th, na, nb, yAp, i). nat (int (length pl) - i))") auto

definition performPrediction ::
  "('a::{zero,plus,minus,times}) list \<Rightarrow> 'a list \<Rightarrow> 'a dense option \<Rightarrow> int \<Rightarrow> int \<Rightarrow> int
     \<Rightarrow> 'a list option" where
  "performPrediction dataValues pl th m na nb =
     do {
       yAp \<leftarrow> make_slice (int (length pl));
       let yAp = copy_slice yAp dataValues;
       predict_loop pl th na nb yAp (m + 1)
     }"

subsection \<open>The coefficients\<close>

definition calculateTheta ::
  "'a inverse \<Rightarrow> ('a::{zero,plus,times}) dense \<Rightarrow> 'a list
     \<Rightarrow> ('a dense option \<times> error option) option" where
  "calculateTheta Inverse phi dataValues =
     (let (rows, cols) = Dims phi in
      do {
        y \<leftarrow> make_slice rows;
        tail \<leftarrow> slice_from dataValues (int (length dataValues) - rows);
        let y = copy_slice y tail;
        let phiT = T phi;
        phiTphi \<leftarrow> NewDense_nil cols cols;
        phiTphi \<leftarrow> Mul phiTphi phiT phi;
        phiTP \<leftarrow> NewDense_nil cols 1;
        yVec \<leftarrow> NewDense rows 1 y;
        phiTP \<leftarrow> Mul phiTP phiT yVec;
        phiTphiInv \<leftarrow> NewDense_nil cols cols;
        (phiTphiInv, err) \<leftarrow> Inverse_into Inverse phiTphiInv phiTphi;
        if err \<noteq> None \<and> err \<noteq> Some ErrSingular
        then Some (None, map_option ErrInversion err)
        else do {
          th \<leftarrow> NewDense_nil cols 1;
          th \<leftarrow> Mul th phiTphiInv phiTP;
          Some (Some th, map_option ErrMat err)
        }
      })"

subsection \<open>Predict\<close>

fun split_loop ::
  "'a list list \<Rightarrow> int \<Rightarrow> 'a list \<Rightarrow> 'a list \<Rightarrow> ('a list \<times> 'a list) option" where
  \<comment> \<open>\<^verbatim>\<open>for i, row := range p.Data\<close>: the rows still to visit, the index of the first\<close>
  "split_loop [] i dataValues timeValues = Some (dataValues, timeValues)"
| "split_loop (row # rest) i dataValues timeValues =
     do {
       y \<leftarrow> slice_index row 0;
       dataValues' \<leftarrow> slice_assign dataValues i y;
       p \<leftarrow> slice_index row 1;
       timeValues' \<leftarrow> slice_assign timeValues i p;
       split_loop rest (i + 1) dataValues' timeValues'
     }"

function combine_loop :: "'a list \<Rightarrow> 'a list \<Rightarrow> 'a list list \<Rightarrow> int \<Rightarrow> 'a list list option" where
  \<comment> \<open>\<^verbatim>\<open>for i := range pl\<close>\<close>
  "combine_loop pl yAp result i =
     (if i < int (length pl) then
        do {
          p \<leftarrow> slice_index pl i;
          y \<leftarrow> slice_index yAp i;
          result' \<leftarrow> slice_assign result i [p, y];
          combine_loop pl yAp result' (i + 1)
        }
      else Some result)"
  by pat_completeness auto
termination
  by (relation "measure (\<lambda>(pl, yAp, result, i). nat (int (length pl) - i))") auto

definition Predict ::
  "(int \<Rightarrow> 'a) \<Rightarrow> 'a inverse \<Rightarrow> ('a::{zero,plus,minus,uminus,times}) Predictor \<Rightarrow> int
     \<Rightarrow> ('a list list option \<times> error option) option" where
  "Predict float64 Inverse p numToPredict =
     (let na = AutoregressiveLags (Params p);
          nb = ExternalInputLags (Params p);
          stepSize = StepSize (Params p);
          m = max na nb
      in if int (length (Data p)) \<le> m then Some (None, Some ErrNotEnoughData)
         else do {
           timeValues \<leftarrow> make_slice (int (length (Data p)));
           dataValues \<leftarrow> make_slice (int (length (Data p)));
           (dataValues, timeValues) \<leftarrow> split_loop (Data p) 0 dataValues timeValues;
           pl \<leftarrow> extendTimeValues float64 timeValues numToPredict stepSize;
           phi \<leftarrow> constructPhiMatrix dataValues timeValues na nb m;
           case phi of
             None \<Rightarrow> Some (None, Some ErrPhiMatrix)
           | Some phi \<Rightarrow>
               do {
                 (th, err) \<leftarrow> calculateTheta Inverse phi dataValues;
                 if err \<noteq> None \<and> err \<noteq> Some (ErrMat ErrSingular)
                 then Some (None, map_option ErrTheta err)
                 else do {
                   yAp \<leftarrow> performPrediction dataValues pl th m na nb;
                   result \<leftarrow> combine_loop pl yAp (replicate (length pl) []) 0;
                   Some (Some result, err)
                 }
               }
         })"


text \<open>
  The row of the design matrix for the original index \<open>t\<close> as the specification
  describes it: column \<open>j - 1\<close> holds \<open>-Y[t-j]\<close> for \<open>j = 1..na\<close>, column \<open>na + j\<close>
  holds \<open>P[t-j]\<close> for \<open>j = 0..nb\<close>, and \<open>0\<close> stands for a term with \<open>t - j < 0\<close>.
\<close>

definition phi_row :: "('a::{zero,uminus}) list \<Rightarrow> 'a list \<Rightarrow> int \<Rightarrow> int \<Rightarrow> int \<Rightarrow> 'a list" where
  "phi_row Y P na nb t =
     map (\<lambda>c. if int c < na
               then (if t - (int c + 1) \<ge> 0 then - Y ! nat (t - (int c + 1)) else 0)
               else (if t - (int c - na) \<ge> 0 then P ! nat (t - (int c - na)) else 0))
       [0..<nat (na + nb + 1)]"

subsection \<open>Names for what Predict computes on the way\<close>

text \<open>
  The theorems on \<open>Predict\<close> speak of the two columns its first loop extracts from the
  data, of the design matrix it builds from them, and of the error the inversion
  returns on the normal matrix \<open>phi\<^sup>T phi\<close> of that design matrix. \<open>tail_column Y R\<close> is the
  column vector of the last \<open>R\<close> entries of \<open>Y\<close> (\<^verbatim>\<open>yVec\<close> in \<^verbatim>\<open>calculateTheta\<close>).
\<close>

definition dataValues_of :: "'a list list \<Rightarrow> 'a list" where
  "dataValues_of data = map (\<lambda>row. row ! 0) data"

definition timeValues_of :: "'a list list \<Rightarrow> 'a list" where
  "timeValues_of data = map (\<lambda>row. row ! 1) data"

definition design_matrix :: "('a::{zero,uminus}) Predictor \<Rightarrow> 'a dense" where
  "design_matrix p =
     (let na = AutoregressiveLags (Params p); nb = ExternalInputLags (Params p)
      in case constructPhiMatrix (dataValues_of (Data p)) (timeValues_of (Data p)) na nb (max na nb) of
           Some (Some phi) \<Rightarrow> phi
         | _ \<Rightarrow> [])"

definition inversion_error ::
  "'a inverse \<Rightarrow> ('a::{zero,plus,uminus,times}) Predictor \<Rightarrow> mat_error option" where
  "inversion_error Inverse p = snd (Inverse (mat_mul (T (design_matrix p)) (design_matrix p)))"

definition tail_column :: "'a list \<Rightarrow> nat \<Rightarrow> 'a dense" where
  "tail_column Y R = map (\<lambda>v. [v]) (drop (length Y - R) Y)"

subsection \<open>Inverses, for the statement on the normal equations\<close>

text \<open>
  \<open>dims_ok M r c\<close>: the matrix has \<open>r\<close> rows of \<open>c\<close> entries, both positive.
  \<open>inverse_of B A\<close>: \<open>B\<close> is a two-sided inverse of the square matrix \<open>A\<close>; a matrix is
  non-singular when it has one. \<open>inverts_exactly Inverse A\<close> says that the inversion is
  exact at \<open>A\<close>: if \<open>A\<close> has an inverse, the call returns no error and leaves that
  inverse in the receiver. It is an idealisation; gonum's inversion rounds, and refuses
  an ill-conditioned \<open>A\<close>.
\<close>

definition dims_ok :: "'a dense \<Rightarrow> nat \<Rightarrow> nat \<Rightarrow> bool" where
  "dims_ok M r c = (0 < r \<and> 0 < c \<and> length M = r \<and> (\<forall>row \<in> set M. length row = c))"

definition identity :: "nat \<Rightarrow> ('a::{zero,one}) dense" where
  "identity n = map (\<lambda>i. map (\<lambda>j. if i = j then 1 else 0) [0..<n]) [0..<n]"

definition inverse_of :: "('a::{zero,one,plus,times}) dense \<Rightarrow> 'a dense \<Rightarrow> bool" where
  "inverse_of B A =
     (dims_ok B (length A) (length A)
      \<and> mat_mul B A = identity (length A) \<and> mat_mul A B = identity (length A))"

definition inverts_exactly :: "('a::{zero,one,plus,times}) inverse \<Rightarrow> 'a dense \<Rightarrow> bool" where
  "inverts_exactly Inverse A =
     (\<forall>B. inverse_of B A \<longrightarrow>
        snd (Inverse A) = None \<and> tabulate (length A) (length A) (fst (Inverse A)) = B)"

declare extend_loop.simps [simp del]
declare extend_loop_heap.simps [simp del]
declare phi_values_loop.simps [simp del]
declare phi_inputs_loop.simps [simp del]
declare phi_rows_loop.simps [simp del]
declare predict_values_loop.simps [simp del]
declare predict_inputs_loop.simps [simp del]
declare predict_loop.simps [simp del]
declare combine_loop.simps [simp del]

section \<open>Construction\<close>

lemma NewPredictor_valid:
  "0 < AutoregressiveLags params \<Longrightarrow> 0 \<le> ExternalInputLags params \<Longrightarrow>
   \<not> StepSize params \<le> 0 \<Longrightarrow>
   NewPredictor data params = (Some \<lparr>Data = data, Params = params\<rparr>, None)"
  by (simp add: NewPredictor_def)

text \<open>
  Claim C8. \<open>NewPredictor\<close> returns an error exactly when \<open>na \<le> 0\<close> or \<open>nb < 0\<close> or
  \<open>StepSize \<le> 0\<close>. When it fails the predictor is \<^verbatim>\<open>nil\<close>; when it succeeds the
  predictor holds the data and the parameters that were supplied.
\<close>

theorem NewPredictor_error_iff:
  "(snd (NewPredictor data params) \<noteq> None \<longleftrightarrow>
      AutoregressiveLags params \<le> 0 \<or> ExternalInputLags params < 0 \<or> StepSize params \<le> 0)
   \<and> (snd (NewPredictor data params) \<noteq> None \<longrightarrow> fst (NewPredictor data params) = None)
   \<and> (snd (NewPredictor data params) = None \<longrightarrow>
        fst (NewPredictor data params) = Some \<lparr>Data = data, Params = params\<rparr>)"
  by (simp add: NewPredictor_def)

theorem NewPredictor_error_iff_witness:
  "snd (NewPredictor [[1, 0], [2, 1 :: real]]
         \<lparr>AutoregressiveLags = 1, ExternalInputLags = 0, StepSize = 1\<rparr>) = None
   \<and> fst (NewPredictor [[1, 0], [2, 1 :: real]]
         \<lparr>AutoregressiveLags = 1, ExternalInputLags = 0, StepSize = 1\<rparr>)
       = Some \<lparr>Data = [[1, 0], [2, 1]],
               Params = \<lparr>AutoregressiveLags = 1, ExternalInputLags = 0, StepSize = 1\<rparr>\<rparr>
   \<and> snd (NewPredictor [[1, 0], [2, 1 :: real]]
         \<lparr>AutoregressiveLags = 0, ExternalInputLags = 0, StepSize = 1\<rparr>) \<noteq> None
   \<and> fst (NewPredictor [[1, 0], [2, 1 :: real]]
         \<lparr>AutoregressiveLags = 0, ExternalInputLags = 0, StepSize = 1\<rparr>) = None"
  using NewPredictor_error_iff [of "[[1, 0], [2, 1 :: real]]"
          "\<lparr>AutoregressiveLags = 1, ExternalInputLags = 0, StepSize = 1\<rparr>"]
        NewPredictor_error_iff [of "[[1, 0], [2, 1 :: real]]"
          "\<lparr>AutoregressiveLags = 0, ExternalInputLags = 0, StepSize = 1\<rparr>"]
  by simp

section \<open>The time axis\<close>

lemma extend_loop_result:
  "0 \<le> i \<Longrightarrow> 0 \<le> n \<Longrightarrow> n + numToPredict \<le> int (length pl) \<Longrightarrow>
   \<exists>pl'. extend_loop float64 pl n numToPredict lastTimeValue stepSize i = Some pl'
     \<and> length pl' = length pl
     \<and> (\<forall>c < length pl. pl' ! c =
          (if n + i \<le> int c \<and> int c < n + numToPredict
           then lastTimeValue + float64 (int c - n + 1) * stepSize else pl ! c))"
proof (induction float64 pl n numToPredict lastTimeValue stepSize i rule: extend_loop.induct)
  case (1 float64 pl n numToPredict lastTimeValue stepSize i)
  show ?case
  proof (cases "i < numToPredict")
    case False
    then show ?thesis by (subst extend_loop.simps) auto
  next
    case True
    let ?v = "lastTimeValue + float64 (i + 1) * stepSize"
    let ?pl1 = "pl[nat (n + i) := ?v]"
    have a: "slice_assign pl (n + i) ?v = Some ?pl1"
      using True "1.prems" by (simp add: slice_assign_def)
    from "1.IH" [OF True a] "1.prems"
    obtain pl' where r: "extend_loop float64 ?pl1 n numToPredict lastTimeValue stepSize (i + 1) = Some pl'"
      and l: "length pl' = length pl"
      and c: "\<forall>c < length pl. pl' ! c =
          (if n + (i + 1) \<le> int c \<and> int c < n + numToPredict
           then lastTimeValue + float64 (int c - n + 1) * stepSize else ?pl1 ! c)"
      by auto
    have e: "extend_loop float64 pl n numToPredict lastTimeValue stepSize i = Some pl'"
      using True a r by (subst extend_loop.simps) simp
    have "pl' ! c =
          (if n + i \<le> int c \<and> int c < n + numToPredict
           then lastTimeValue + float64 (int c - n + 1) * stepSize else pl ! c)"
      if "c < length pl" for c
    proof (cases "int c = n + i")
      case True
      then have "c = nat (n + i)" by simp
      with c that True \<open>i < numToPredict\<close> show ?thesis
        by (simp add: algebra_simps)
    next
      case False
      then have "c \<noteq> nat (n + i)" using "1.prems" by auto
      with c that False show ?thesis by auto
    qed
    with e l show ?thesis by blast
  qed
qed


lemma extendTimeValues_result:
  assumes "timeValues \<noteq> []" and "0 \<le> numToPredict"
  shows "\<exists>pl. extendTimeValues float64 timeValues numToPredict stepSize = Some pl
     \<and> length pl = length timeValues + nat numToPredict
     \<and> (\<forall>c < length pl. pl ! c =
          (if c < length timeValues then timeValues ! c
           else last timeValues + float64 (int c - int (length timeValues) + 1) * stepSize))"
proof -
  let ?n = "int (length timeValues)"
  let ?seeded = "copy_slice (replicate (nat (?n + numToPredict)) 0) timeValues"
  have len0: "length ?seeded = length timeValues + nat numToPredict"
    using assms by (simp add: copy_slice_def nat_add_distrib)
  have ent0: "?seeded ! c = timeValues ! c" if "c < length timeValues" for c
    using that assms by (simp add: copy_slice_def nth_append nat_add_distrib)
  have "nat (?n - 1) = length timeValues - 1" by arith
  then have lastv: "slice_index timeValues (?n - 1) = Some (last timeValues)"
    using assms by (simp add: slice_index_def last_conv_nth)
  from extend_loop_result [of 0 ?n numToPredict ?seeded float64 "last timeValues" stepSize]
  obtain pl where r: "extend_loop float64 ?seeded ?n numToPredict (last timeValues) stepSize 0 = Some pl"
    and l: "length pl = length ?seeded"
    and c: "\<forall>c < length ?seeded. pl ! c =
          (if ?n + 0 \<le> int c \<and> int c < ?n + numToPredict
           then last timeValues + float64 (int c - ?n + 1) * stepSize else ?seeded ! c)"
    using len0 assms by auto
  have e: "extendTimeValues float64 timeValues numToPredict stepSize = Some pl"
    using assms lastv r by (simp add: extendTimeValues_def make_slice_def)
  have "pl ! c = (if c < length timeValues then timeValues ! c
           else last timeValues + float64 (int c - ?n + 1) * stepSize)"
    if "c < length pl" for c
    using that c l len0 ent0 [of c] assms by auto
  with e l len0 show ?thesis by auto
qed

lemma heap_assign_fresh:
  "heap_assign (h @ [pl]) \<lparr>addr = length h, off = 0, len = length pl\<rparr> i v
     = map_option (\<lambda>pl'. h @ [pl']) (slice_assign pl i v)"
  by (simp add: heap_assign_def slice_assign_def)

lemma slice_assign_length: "slice_assign pl i v = Some pl' \<Longrightarrow> length pl' = length pl"
  by (auto simp: slice_assign_def split: if_splits)

lemma extend_loop_heap_fresh:
  "extend_loop_heap float64 (h @ [pl]) \<lparr>addr = length h, off = 0, len = length pl\<rparr>
       n numToPredict lastTimeValue stepSize i
     = map_option (\<lambda>pl'. h @ [pl'])
         (extend_loop float64 pl n numToPredict lastTimeValue stepSize i)"
proof (induction float64 pl n numToPredict lastTimeValue stepSize i rule: extend_loop.induct)
  case (1 float64 pl n numToPredict lastTimeValue stepSize i)
  show ?case
  proof (cases "i < numToPredict")
    case False
    then show ?thesis
      by (subst extend_loop_heap.simps, subst extend_loop.simps) simp
  next
    case True
    let ?v = "lastTimeValue + float64 (i + 1) * stepSize"
    show ?thesis
    proof (cases "slice_assign pl (n + i) ?v")
      case None
      with True show ?thesis
        by (subst extend_loop_heap.simps, subst extend_loop.simps)
           (simp add: heap_assign_fresh)
    next
      case (Some pl1)
      have len1: "length pl1 = length pl" using Some by (rule slice_assign_length)
      from "1.IH" [OF True Some] len1
      have "extend_loop_heap float64 (h @ [pl1]) \<lparr>addr = length h, off = 0, len = length pl\<rparr>
               n numToPredict lastTimeValue stepSize (i + 1)
            = map_option (\<lambda>pl'. h @ [pl'])
                (extend_loop float64 pl1 n numToPredict lastTimeValue stepSize (i + 1))"
        by simp
      with True Some show ?thesis
        by (subst extend_loop_heap.simps, subst extend_loop.simps)
           (simp add: heap_assign_fresh)
    qed
  qed
qed

lemma extend_loop_length:
  "extend_loop float64 pl n numToPredict lastTimeValue stepSize i = Some pl'
     \<Longrightarrow> length pl' = length pl"
proof (induction float64 pl n numToPredict lastTimeValue stepSize i rule: extend_loop.induct)
  case (1 float64 pl n numToPredict lastTimeValue stepSize i)
  show ?case
  proof (cases "i < numToPredict")
    case False
    with "1.prems" show ?thesis by (subst (asm) extend_loop.simps) simp
  next
    case True
    with "1.prems" obtain pl1 where
      a: "slice_assign pl (n + i) (lastTimeValue + float64 (i + 1) * stepSize) = Some pl1"
      and r: "extend_loop float64 pl1 n numToPredict lastTimeValue stepSize (i + 1) = Some pl'"
      by (subst (asm) extend_loop.simps) (auto split: bind_splits)
    from "1.IH" [OF True a r] slice_assign_length [OF a] show ?thesis by simp
  qed
qed

lemma contents_length: "valid_ref h s \<Longrightarrow> length (contents h s) = len s"
  by (auto simp: contents_def valid_ref_def)

lemma extendTimeValues_heap_refines:
  assumes "valid_ref h timeValues"
  shows "extendTimeValues_heap float64 h timeValues numToPredict stepSize
     = map_option (\<lambda>pl. (h @ [pl], \<lparr>addr = length h, off = 0, len = length pl\<rparr>))
         (extendTimeValues float64 (contents h timeValues) numToPredict stepSize)"
proof (cases "int (len timeValues) + numToPredict < 0")
  case True
  have "length (contents h timeValues) = len timeValues"
    using assms by (rule contents_length)
  with True show ?thesis
    by (simp add: extendTimeValues_heap_def extendTimeValues_def heap_make_def make_slice_def)
next
  case False
  let ?tv = "contents h timeValues"
  let ?z = "replicate (nat (int (len timeValues) + numToPredict)) (0::'a)"
  let ?ref = "\<lparr>addr = length h, off = 0, len = nat (int (len timeValues) + numToPredict)\<rparr>"
  let ?seeded = "copy_slice ?z ?tv"
  have ltv: "length ?tv = len timeValues"
    using assms by (rule contents_length)
  have mk: "heap_make h (int (len timeValues) + numToPredict) = Some (h @ [?z], ?ref)"
    using False by (simp add: heap_make_def)
  have cont: "contents (h @ [?z]) timeValues = ?tv"
    using assms by (simp add: contents_def valid_ref_def nth_append)
  have cp: "heap_copy (h @ [?z]) ?ref timeValues = h @ [?seeded]"
  proof (cases "len timeValues \<le> nat (int (len timeValues) + numToPredict)")
    case True
    then show ?thesis
      using ltv cont by (simp add: heap_copy_def copy_slice_def Let_def min_def)
  next
    case False
    then show ?thesis
      using ltv cont by (simp add: heap_copy_def copy_slice_def Let_def min_def)
  qed
  have len0: "length ?seeded = nat (int (len timeValues) + numToPredict)"
    using ltv by (simp add: copy_slice_def)
  have ix: "heap_index (h @ [?seeded]) timeValues i = slice_index ?tv i" for i
    using assms ltv
    by (auto simp: heap_index_def slice_index_def contents_def valid_ref_def nth_append)
  show ?thesis
  proof (cases "slice_index ?tv (int (len timeValues) - 1)")
    case None
    then show ?thesis
      using mk cp ix ltv False
      by (simp add: extendTimeValues_heap_def extendTimeValues_def make_slice_def)
  next
    case (Some lastTimeValue)
    have lp: "extend_loop_heap float64 (h @ [?seeded]) ?ref (int (len timeValues)) numToPredict
                 lastTimeValue stepSize 0
              = map_option (\<lambda>pl'. h @ [pl'])
                  (extend_loop float64 ?seeded (int (len timeValues)) numToPredict
                     lastTimeValue stepSize 0)"
      using extend_loop_heap_fresh [of float64 h ?seeded] len0 by simp
    show ?thesis
    proof (cases "extend_loop float64 ?seeded (int (len timeValues)) numToPredict
                     lastTimeValue stepSize 0")
      case None
      then show ?thesis
        using mk cp ix ltv False Some lp
        by (simp add: extendTimeValues_heap_def extendTimeValues_def make_slice_def)
    next
      case (Some pl')
      note r = this
      have "length pl' = nat (int (len timeValues) + numToPredict)"
        using extend_loop_length [OF r] len0 by simp
      then show ?thesis
        using mk cp ix ltv False \<open>slice_index ?tv (int (len timeValues) - 1) = Some lastTimeValue\<close> lp r
        by (simp add: extendTimeValues_heap_def extendTimeValues_def make_slice_def)
    qed
  qed
qed


text \<open>
  Claim C9. For a non-empty \<open>timeValues\<close> of length \<open>n\<close> and \<open>numToPredict \<ge> 0\<close>,
  \<open>extendTimeValues\<close> returns a slice of length \<open>n + numToPredict\<close>; its first \<open>n\<close>
  entries are the historical ones and, for \<open>k = 1..numToPredict\<close>, the entry after the
  first \<open>n + k - 1\<close> (the \<open>(n + k)\<close>-th entry, index \<open>n + k - 1\<close>) is
  \<open>last timeValues + float64 k * stepSize\<close>. For \<open>numToPredict = 0\<close> the result equals the
  input. On the store, the result is a newly allocated array: its address is not an
  address of the store before the call, and every array of that store is unchanged.
\<close>

theorem extendTimeValues_extends:
  assumes "timeValues \<noteq> []" and "0 \<le> numToPredict"
  shows "\<exists>pl. extendTimeValues float64 timeValues numToPredict stepSize = Some pl
     \<and> length pl = length timeValues + nat numToPredict
     \<and> take (length timeValues) pl = timeValues
     \<and> (\<forall>k. 1 \<le> k \<and> k \<le> numToPredict \<longrightarrow>
           pl ! (length timeValues + nat k - 1) = last timeValues + float64 k * stepSize)
     \<and> (numToPredict = 0 \<longrightarrow> pl = timeValues)
     \<and> (\<forall>h tv. valid_ref h tv \<and> contents h tv = timeValues \<longrightarrow>
           extendTimeValues_heap float64 h tv numToPredict stepSize
             = Some (h @ [pl], \<lparr>addr = length h, off = 0, len = length pl\<rparr>))"
proof -
  from extendTimeValues_result [OF assms, of float64 stepSize]
  obtain pl where e: "extendTimeValues float64 timeValues numToPredict stepSize = Some pl"
    and l: "length pl = length timeValues + nat numToPredict"
    and c: "\<forall>c < length pl. pl ! c =
          (if c < length timeValues then timeValues ! c
           else last timeValues + float64 (int c - int (length timeValues) + 1) * stepSize)"
    by blast
  have t: "take (length timeValues) pl = timeValues"
    using l c by (intro nth_equalityI) auto
  have k: "pl ! (length timeValues + nat k - 1) = last timeValues + float64 k * stepSize"
    if "1 \<le> k" and "k \<le> numToPredict" for k
  proof -
    let ?c = "length timeValues + nat k - 1"
    have "?c < length pl" and "\<not> ?c < length timeValues"
      and "int ?c - int (length timeValues) + 1 = k"
      using that l by auto
    with c show ?thesis by auto
  qed
  have z: "pl = timeValues" if "numToPredict = 0"
    using t l that by simp
  have s: "extendTimeValues_heap float64 h tv numToPredict stepSize
             = Some (h @ [pl], \<lparr>addr = length h, off = 0, len = length pl\<rparr>)"
    if "valid_ref h tv" and "contents h tv = timeValues" for h tv
    using extendTimeValues_heap_refines [OF that(1), of float64 numToPredict stepSize] that(2) e
    by simp
  from e l t k z s show ?thesis by blast
qed

theorem extendTimeValues_extends_witness:
  "[1, 2, 3 :: real] \<noteq> [] \<and> (0 :: int) \<le> 2 \<and> (0 :: int) \<le> 0
   \<and> extendTimeValues of_int [1, 2, 3 :: real] 2 1 = Some [1, 2, 3, 4, 5]
   \<and> extendTimeValues of_int [1, 2, 3 :: real] 0 1 = Some [1, 2, 3]
   \<and> valid_ref [[1, 2, 3 :: real]] \<lparr>addr = 0, off = 0, len = 3\<rparr>
   \<and> contents [[1, 2, 3 :: real]] \<lparr>addr = 0, off = 0, len = 3\<rparr> = [1, 2, 3]
   \<and> extendTimeValues_heap of_int [[1, 2, 3 :: real]] \<lparr>addr = 0, off = 0, len = 3\<rparr> 2 1
       = Some ([[1, 2, 3], [1, 2, 3, 4, 5]], \<lparr>addr = 1, off = 0, len = 5\<rparr>)
   \<and> extendTimeValues_heap of_int [[1, 2, 3 :: real]] \<lparr>addr = 0, off = 0, len = 3\<rparr> 0 1
       = Some ([[1, 2, 3], [1, 2, 3]], \<lparr>addr = 1, off = 0, len = 3\<rparr>)"
proof -
  have h1: "[1, 2, 3 :: real] \<noteq> []" and h2: "(0 :: int) \<le> 2" and h0: "(0 :: int) \<le> 0"
    by simp_all
  have v: "valid_ref [[1, 2, 3 :: real]] \<lparr>addr = 0, off = 0, len = 3\<rparr>"
    and c: "contents [[1, 2, 3 :: real]] \<lparr>addr = 0, off = 0, len = 3\<rparr> = [1, 2, 3]"
    by (simp_all add: valid_ref_def contents_def)
  have e: "extendTimeValues of_int [1, 2, 3 :: real] 2 1 = Some [1, 2, 3, 4, 5]"
    by (simp add: extendTimeValues_def make_slice_def copy_slice_def slice_index_def
          slice_assign_def extend_loop.simps eval_nat_numeral)
  from extendTimeValues_extends [OF h1 h2, of of_int 1] e
  have "\<forall>h tv. valid_ref h tv \<and> contents h tv = [1, 2, 3 :: real] \<longrightarrow>
           extendTimeValues_heap of_int h tv 2 1
             = Some (h @ [[1, 2, 3, 4, 5]], \<lparr>addr = length h, off = 0, len = 5\<rparr>)"
    by simp
  from this [rule_format, of "[[1, 2, 3]]" "\<lparr>addr = 0, off = 0, len = 3\<rparr>"] v c
  have s2: "extendTimeValues_heap of_int [[1, 2, 3 :: real]] \<lparr>addr = 0, off = 0, len = 3\<rparr> 2 1
       = Some ([[1, 2, 3], [1, 2, 3, 4, 5]], \<lparr>addr = 1, off = 0, len = 5\<rparr>)"
    by simp
  from extendTimeValues_extends [OF h1 h0, of of_int 1]
  obtain pl where e0: "extendTimeValues of_int [1, 2, 3 :: real] 0 1 = Some pl"
    and z: "(0 :: int) = 0 \<longrightarrow> pl = [1, 2, 3]"
    and s: "\<forall>h tv. valid_ref h tv \<and> contents h tv = [1, 2, 3 :: real] \<longrightarrow>
           extendTimeValues_heap of_int h tv 0 1
             = Some (h @ [pl], \<lparr>addr = length h, off = 0, len = length pl\<rparr>)"
    by blast
  from z have pl: "pl = [1, 2, 3]" by simp
  from s [rule_format, of "[[1, 2, 3]]" "\<lparr>addr = 0, off = 0, len = 3\<rparr>"] v c pl
  have s0: "extendTimeValues_heap of_int [[1, 2, 3 :: real]] \<lparr>addr = 0, off = 0, len = 3\<rparr> 0 1
       = Some ([[1, 2, 3], [1, 2, 3]], \<lparr>addr = 1, off = 0, len = 3\<rparr>)"
    by simp
  from h1 h2 h0 v c e e0 [unfolded pl] s2 s0 show ?thesis by blast
qed


section \<open>Too little data\<close>

lemma Predict_short:
  "int (length (Data p)) \<le> max (AutoregressiveLags (Params p)) (ExternalInputLags (Params p))
     \<Longrightarrow> Predict float64 Inverse p numToPredict = Some (None, Some ErrNotEnoughData)"
  by (simp add: Predict_def Let_def)

lemma constructPhiMatrix_short:
  "int (length dataValues) \<le> m \<Longrightarrow> constructPhiMatrix dataValues timeValues na nb m = Some None"
  by (simp add: constructPhiMatrix_def Let_def)

text \<open>
  Claim C7. When the series is no longer than \<open>m = max na nb\<close>, \<open>Predict\<close> returns no
  result and the not-enough-data error (the spec's \<open>InsufficientData\<close>), for every
  horizon. The check comes first: it holds whatever the rows of the data, the horizon
  and the inversion are, so nothing that could panic or fail has run before it; the
  design matrix, which would be \<^verbatim>\<open>nil\<close> for such a series, is not what reports the
  failure (the error is not \<open>ErrPhiMatrix\<close>).
\<close>

theorem Predict_insufficient_data:
  fixes p :: "('a::{zero,plus,minus,uminus,times}) Predictor"
  assumes "int (length (Data p)) \<le> max (AutoregressiveLags (Params p)) (ExternalInputLags (Params p))"
  shows "Predict float64 Inverse p numToPredict = Some (None, Some ErrNotEnoughData)
     \<and> (\<forall>(dataValues :: 'a list) timeValues. length dataValues = length (Data p) \<longrightarrow>
          constructPhiMatrix dataValues timeValues (AutoregressiveLags (Params p))
            (ExternalInputLags (Params p))
            (max (AutoregressiveLags (Params p)) (ExternalInputLags (Params p))) = Some None)"
  using assms by (simp add: Predict_short constructPhiMatrix_short)

theorem Predict_insufficient_data_witness:
  "int (length (Data \<lparr>Data = [[1, 0], [2, 1 :: real]],
          Params = \<lparr>AutoregressiveLags = 2, ExternalInputLags = 1, StepSize = 1\<rparr>\<rparr>)) \<le> max 2 1
   \<and> Predict of_int (\<lambda>A. (\<lambda>i j. 0, None)) \<lparr>Data = [[1, 0], [2, 1 :: real]],
          Params = \<lparr>AutoregressiveLags = 2, ExternalInputLags = 1, StepSize = 1\<rparr>\<rparr> 3
       = Some (None, Some ErrNotEnoughData)
   \<and> constructPhiMatrix [1, 2 :: real] [0, 1] 2 1 2 = Some None"
proof -
  let ?p = "\<lparr>Data = [[1, 0], [2, 1 :: real]],
          Params = \<lparr>AutoregressiveLags = 2, ExternalInputLags = 1, StepSize = 1\<rparr>\<rparr>"
  have h: "int (length (Data ?p)) \<le> max (AutoregressiveLags (Params ?p)) (ExternalInputLags (Params ?p))"
    by simp
  from Predict_insufficient_data [OF h, of of_int "\<lambda>A. (\<lambda>i j. 0, None)" 3]
  have "Predict of_int (\<lambda>A. (\<lambda>i j. 0, None)) ?p 3 = Some (None, Some ErrNotEnoughData)"
    and "\<forall>(dataValues :: real list) timeValues. length dataValues = length (Data ?p) \<longrightarrow>
          constructPhiMatrix dataValues timeValues 2 1 2 = Some None"
    by simp_all
  from this(1) this(2) [rule_format, of "[1, 2]" "[0, 1]"] show ?thesis by simp
qed

text \<open>
  Claim C10. \<open>NewPredictor\<close> does not look at the data: with valid parameters it succeeds
  for every data slice, the empty one included, and its error does not depend on the
  data at all. A series too short for the lags is reported by \<open>Predict\<close>, as the
  not-enough-data error.
\<close>

theorem NewPredictor_ignores_data:
  assumes "0 < AutoregressiveLags params" and "0 \<le> ExternalInputLags params"
    and "\<not> StepSize params \<le> 0"
  shows "NewPredictor data params = (Some \<lparr>Data = data, Params = params\<rparr>, None)
     \<and> NewPredictor [] params = (Some \<lparr>Data = [], Params = params\<rparr>, None)
     \<and> (\<forall>data' params'. snd (NewPredictor data' params') = snd (NewPredictor data params'))
     \<and> (int (length data) \<le> max (AutoregressiveLags params) (ExternalInputLags params) \<longrightarrow>
          Predict float64 Inverse \<lparr>Data = data, Params = params\<rparr> numToPredict
            = Some (None, Some ErrNotEnoughData))
     \<and> Predict float64 Inverse \<lparr>Data = [], Params = params\<rparr> numToPredict
            = Some (None, Some ErrNotEnoughData)"
proof -
  have "snd (NewPredictor data' params') = snd (NewPredictor data params')"
    for data' :: "'a list list" and params' :: "'a ModelParameters"
    by (simp add: NewPredictor_def)
  moreover have "Predict float64 Inverse \<lparr>Data = [], Params = params\<rparr> numToPredict
            = Some (None, Some ErrNotEnoughData)"
    using assms by (intro Predict_short) simp
  ultimately show ?thesis
    using assms by (simp add: NewPredictor_valid Predict_short)
qed

theorem NewPredictor_ignores_data_witness:
  "NewPredictor [[1, 0 :: real]] \<lparr>AutoregressiveLags = 1, ExternalInputLags = 0, StepSize = 1\<rparr>
     = (Some \<lparr>Data = [[1, 0]],
          Params = \<lparr>AutoregressiveLags = 1, ExternalInputLags = 0, StepSize = 1\<rparr>\<rparr>, None)
   \<and> NewPredictor [] \<lparr>AutoregressiveLags = 1, ExternalInputLags = 0, StepSize = 1 :: real\<rparr>
     = (Some \<lparr>Data = [],
          Params = \<lparr>AutoregressiveLags = 1, ExternalInputLags = 0, StepSize = 1\<rparr>\<rparr>, None)
   \<and> Predict of_int (\<lambda>A. (\<lambda>i j. 0, None)) \<lparr>Data = [[1, 0 :: real]],
          Params = \<lparr>AutoregressiveLags = 1, ExternalInputLags = 0, StepSize = 1\<rparr>\<rparr> 2
       = Some (None, Some ErrNotEnoughData)
   \<and> Predict of_int (\<lambda>A. (\<lambda>i j. 0, None)) \<lparr>Data = [],
          Params = \<lparr>AutoregressiveLags = 1, ExternalInputLags = 0, StepSize = 1 :: real\<rparr>\<rparr> 2
       = Some (None, Some ErrNotEnoughData)"
proof -
  let ?ps = "\<lparr>AutoregressiveLags = 1, ExternalInputLags = 0, StepSize = 1 :: real\<rparr>"
  have h: "0 < AutoregressiveLags ?ps" "0 \<le> ExternalInputLags ?ps" "\<not> StepSize ?ps \<le> 0"
    by simp_all
  from NewPredictor_ignores_data [OF h, of "[[1, 0]]" of_int "\<lambda>A. (\<lambda>i j. 0, None)" 2]
  show ?thesis by simp
qed

section \<open>The recursive forecast\<close>


lemma slice_assign_Some:
  "slice_assign xs i v = Some ys \<Longrightarrow> 0 \<le> i \<and> i < int (length xs) \<and> ys = xs[nat i := v]"
  by (auto simp: slice_assign_def split: if_splits)


lemma At_in_range:
  "0 \<le> i \<Longrightarrow> i < int (length M) \<Longrightarrow> hd M \<noteq> [] \<Longrightarrow> At (Some M) i 0 = Some (M ! nat i ! 0)"
  by (simp add: At_def Dims_def)

subsection \<open>The two inner loops\<close>

lemma predict_values_loop_total:
  "th = Some M \<Longrightarrow> 1 \<le> j \<Longrightarrow> i \<le> int (length yAp) \<Longrightarrow> na \<le> int (length M) \<Longrightarrow> hd M \<noteq> [] \<Longrightarrow>
   \<exists>r. predict_values_loop yAp th i na j acc = Some r"
proof (induction yAp th i na j acc rule: predict_values_loop.induct)
  case (1 yAp th i na j acc)
  show ?case
  proof (cases "j \<le> na")
    case False
    then show ?thesis by (subst predict_values_loop.simps) simp
  next
    case True
    note le = this
    show ?thesis
    proof (cases "i - j \<ge> 0")
      case False
      with le "1.IH"(2) "1.prems" show ?thesis
        by (subst predict_values_loop.simps) simp
    next
      case True
      have y: "slice_index yAp (i - j) = Some (yAp ! nat (i - j))"
        using True "1.prems" by (simp add: slice_index_def)
      have t: "At th (j - 1) 0 = Some (M ! nat (j - 1) ! 0)"
        using le "1.prems" by (simp add: At_in_range)
      from "1.IH"(1) [OF le True y t] "1.prems"
      obtain r where "predict_values_loop yAp th i na (j + 1)
          (acc - yAp ! nat (i - j) * M ! nat (j - 1) ! 0) = Some r"
        by auto
      with le True y t show ?thesis
        by (subst predict_values_loop.simps) simp
    qed
  qed
qed

lemma predict_inputs_loop_total:
  "th = Some M \<Longrightarrow> 0 \<le> j \<Longrightarrow> i < int (length pl) \<Longrightarrow> 0 \<le> na \<Longrightarrow> na + nb < int (length M) \<Longrightarrow>
   hd M \<noteq> [] \<Longrightarrow> \<exists>r. predict_inputs_loop pl th i na nb j acc = Some r"
proof (induction pl th i na nb j acc rule: predict_inputs_loop.induct)
  case (1 pl th i na nb j acc)
  show ?case
  proof (cases "j \<le> nb")
    case False
    then show ?thesis by (subst predict_inputs_loop.simps) simp
  next
    case True
    note le = this
    show ?thesis
    proof (cases "i - j \<ge> 0")
      case False
      with le "1.IH"(2) "1.prems" show ?thesis
        by (subst predict_inputs_loop.simps) simp
    next
      case True
      have p: "slice_index pl (i - j) = Some (pl ! nat (i - j))"
        using True "1.prems" by (simp add: slice_index_def)
      have t: "At th (na + j) 0 = Some (M ! nat (na + j) ! 0)"
        using le "1.prems" by (simp add: At_in_range)
      from "1.IH"(1) [OF le True p t] "1.prems"
      obtain r where "predict_inputs_loop pl th i na nb (j + 1)
          (acc + pl ! nat (i - j) * M ! nat (na + j) ! 0) = Some r"
        by auto
      with le True p t show ?thesis
        by (subst predict_inputs_loop.simps) simp
    qed
  qed
qed




subsection \<open>The outer loop\<close>

lemma predict_loop_prefix:
  "predict_loop pl th na nb yAp i = Some r \<Longrightarrow>
     length r = length yAp \<and> (\<forall>c. int c < i \<longrightarrow> r ! c = yAp ! c)"
proof (induction pl th na nb yAp i arbitrary: r rule: predict_loop.induct)
  case (1 pl th na nb yAp i)
  show ?case
  proof (cases "i < int (length pl)")
    case False
    with "1.prems" show ?thesis by (subst (asm) predict_loop.simps) simp
  next
    case True
    from True "1.prems" obtain s1 s2 yAp' where
      a: "predict_values_loop yAp th i na 1 0 = Some s1"
      and b: "predict_inputs_loop pl th i na nb 0 s1 = Some s2"
      and c: "slice_assign yAp i s2 = Some yAp'"
      and d: "predict_loop pl th na nb yAp' (i + 1) = Some r"
      by (subst (asm) predict_loop.simps) (auto split: bind_splits)
    from slice_assign_Some [OF c] have i: "0 \<le> i" "i < int (length yAp)"
      and y': "yAp' = yAp[nat i := s2]" by simp_all
    from "1.IH" [OF True a b c d]
    have l: "length r = length yAp'" and p: "\<forall>c. int c < i + 1 \<longrightarrow> r ! c = yAp' ! c"
      by simp_all
    have "r ! c = yAp ! c" if "int c < i" for c
    proof -
      from that i have "c \<noteq> nat i" by auto
      with p that y' show ?thesis by simp
    qed
    with l y' show ?thesis by simp
  qed
qed

lemma predict_loop_total:
  "th = Some M \<Longrightarrow> 0 \<le> i \<Longrightarrow> length yAp = length pl \<Longrightarrow> 0 \<le> na \<Longrightarrow> 0 \<le> nb \<Longrightarrow>
   na + nb < int (length M) \<Longrightarrow> hd M \<noteq> [] \<Longrightarrow> \<exists>r. predict_loop pl th na nb yAp i = Some r"
proof (induction pl th na nb yAp i rule: predict_loop.induct)
  case (1 pl th na nb yAp i)
  show ?case
  proof (cases "i < int (length pl)")
    case False
    then show ?thesis by (subst predict_loop.simps) simp
  next
    case True
    from predict_values_loop_total [of th M 1 i yAp na 0] "1.prems" True
    obtain s1 where a: "predict_values_loop yAp th i na 1 0 = Some s1" by auto
    from predict_inputs_loop_total [of th M 0 i pl na nb s1] "1.prems" True
    obtain s2 where b: "predict_inputs_loop pl th i na nb 0 s1 = Some s2" by auto
    have c: "slice_assign yAp i s2 = Some (yAp[nat i := s2])"
      using True "1.prems" by (simp add: slice_assign_def)
    from "1.IH" [OF True a b c] "1.prems"
    obtain r where "predict_loop pl th na nb (yAp[nat i := s2]) (i + 1) = Some r" by auto
    with True a b c show ?thesis by (subst predict_loop.simps) simp
  qed
qed



subsection \<open>performPrediction\<close>

lemma copy_slice_length: "length (copy_slice dst src) = length dst"
  by (simp add: copy_slice_def)



lemma performPrediction_Some:
  "performPrediction Y pl th m na nb = Some yAp \<longleftrightarrow>
     predict_loop pl th na nb (copy_slice (replicate (length pl) 0) Y) (m + 1) = Some yAp"
  by (simp add: performPrediction_def make_slice_def)

lemma performPrediction_seed:
  assumes "performPrediction Y pl th m na nb = Some yAp"
  shows "length yAp = length pl"
    and "int c \<le> m \<Longrightarrow> yAp ! c = copy_slice (replicate (length pl) 0) Y ! c"
  using predict_loop_prefix [OF assms [unfolded performPrediction_Some]]
  by (simp_all add: copy_slice_length)

lemma performPrediction_total:
  assumes "- 1 \<le> m" "0 \<le> na" "0 \<le> nb" "na + nb < int (length M)" "hd M \<noteq> []"
  shows "\<exists>yAp. performPrediction Y pl (Some M) m na nb = Some yAp"
  unfolding performPrediction_Some
  using assms by (intro predict_loop_total [of "Some M" M]) (simp_all add: copy_slice_length)






section \<open>The design matrix\<close>

lemma phi_values_loop_result:
  "1 \<le> j \<Longrightarrow> t < int (length dv) \<Longrightarrow> na \<le> int (length row) \<Longrightarrow>
   \<exists>row'. phi_values_loop dv t na row j = Some row'
     \<and> length row' = length row
     \<and> (\<forall>c < length row. row' ! c =
          (if j \<le> int c + 1 \<and> int c + 1 \<le> na \<and> t - (int c + 1) \<ge> 0
           then - dv ! nat (t - (int c + 1)) else row ! c))"
proof (induction dv t na row j rule: phi_values_loop.induct)
  case (1 dv t na row j)
  show ?case
  proof (cases "j \<le> na")
    case False
    then show ?thesis by (subst phi_values_loop.simps) auto
  next
    case True
    note le = this
    show ?thesis
    proof (cases "t - j \<ge> 0")
      case False
      from "1.IH"(2) [OF le False] "1.prems"
      obtain row' where r: "phi_values_loop dv t na row (j + 1) = Some row'"
        and l: "length row' = length row"
        and c: "\<forall>c < length row. row' ! c =
          (if j + 1 \<le> int c + 1 \<and> int c + 1 \<le> na \<and> t - (int c + 1) \<ge> 0
           then - dv ! nat (t - (int c + 1)) else row ! c)"
        by auto
      have e: "phi_values_loop dv t na row j = Some row'"
        using le False r by (subst phi_values_loop.simps) simp
      have "row' ! c =
          (if j \<le> int c + 1 \<and> int c + 1 \<le> na \<and> t - (int c + 1) \<ge> 0
           then - dv ! nat (t - (int c + 1)) else row ! c)" if "c < length row" for c
        using c that False by (cases "int c + 1 = j") auto
      with e l show ?thesis by blast
    next
      case True
      let ?v = "dv ! nat (t - j)"
      let ?row1 = "row[nat (j - 1) := - ?v]"
      have v: "slice_index dv (t - j) = Some ?v"
        using True "1.prems" by (simp add: slice_index_def)
      have a: "slice_assign row (j - 1) (- ?v) = Some ?row1"
        using le "1.prems" by (simp add: slice_assign_def)
      from "1.IH"(1) [OF le True v a] "1.prems"
      obtain row' where r: "phi_values_loop dv t na ?row1 (j + 1) = Some row'"
        and l: "length row' = length row"
        and c: "\<forall>c < length row. row' ! c =
          (if j + 1 \<le> int c + 1 \<and> int c + 1 \<le> na \<and> t - (int c + 1) \<ge> 0
           then - dv ! nat (t - (int c + 1)) else ?row1 ! c)"
        by auto
      have e: "phi_values_loop dv t na row j = Some row'"
        using le True v a r by (subst phi_values_loop.simps) simp
      have "row' ! c =
          (if j \<le> int c + 1 \<and> int c + 1 \<le> na \<and> t - (int c + 1) \<ge> 0
           then - dv ! nat (t - (int c + 1)) else row ! c)" if "c < length row" for c
      proof (cases "int c + 1 = j")
        case True
        then have "c = nat (j - 1)" by simp
        with c that True le \<open>t - j \<ge> 0\<close> show ?thesis by simp
      next
        case False
        then have "c \<noteq> nat (j - 1)" using "1.prems" by auto
        with c that False show ?thesis by auto
      qed
      with e l show ?thesis by blast
    qed
  qed
qed

lemma phi_inputs_loop_result:
  "0 \<le> j \<Longrightarrow> 0 \<le> na \<Longrightarrow> t < int (length tv) \<Longrightarrow> na + nb < int (length row) \<Longrightarrow>
   \<exists>row'. phi_inputs_loop tv t na nb row j = Some row'
     \<and> length row' = length row
     \<and> (\<forall>c < length row. row' ! c =
          (if na + j \<le> int c \<and> int c \<le> na + nb \<and> t - (int c - na) \<ge> 0
           then tv ! nat (t - (int c - na)) else row ! c))"
proof (induction tv t na nb row j rule: phi_inputs_loop.induct)
  case (1 tv t na nb row j)
  show ?case
  proof (cases "j \<le> nb")
    case False
    then show ?thesis by (subst phi_inputs_loop.simps) auto
  next
    case True
    note le = this
    show ?thesis
    proof (cases "t - j \<ge> 0")
      case False
      from "1.IH"(2) [OF le False] "1.prems"
      obtain row' where r: "phi_inputs_loop tv t na nb row (j + 1) = Some row'"
        and l: "length row' = length row"
        and c: "\<forall>c < length row. row' ! c =
          (if na + (j + 1) \<le> int c \<and> int c \<le> na + nb \<and> t - (int c - na) \<ge> 0
           then tv ! nat (t - (int c - na)) else row ! c)"
        by auto
      have e: "phi_inputs_loop tv t na nb row j = Some row'"
        using le False r by (subst phi_inputs_loop.simps) simp
      have "row' ! c =
          (if na + j \<le> int c \<and> int c \<le> na + nb \<and> t - (int c - na) \<ge> 0
           then tv ! nat (t - (int c - na)) else row ! c)" if "c < length row" for c
        using c that False by (cases "int c = na + j") auto
      with e l show ?thesis by blast
    next
      case True
      let ?v = "tv ! nat (t - j)"
      let ?row1 = "row[nat (na + j) := ?v]"
      have v: "slice_index tv (t - j) = Some ?v"
        using True "1.prems" by (simp add: slice_index_def)
      have a: "slice_assign row (na + j) ?v = Some ?row1"
        using le "1.prems" by (simp add: slice_assign_def)
      from "1.IH"(1) [OF le True v a] "1.prems"
      obtain row' where r: "phi_inputs_loop tv t na nb ?row1 (j + 1) = Some row'"
        and l: "length row' = length row"
        and c: "\<forall>c < length row. row' ! c =
          (if na + (j + 1) \<le> int c \<and> int c \<le> na + nb \<and> t - (int c - na) \<ge> 0
           then tv ! nat (t - (int c - na)) else ?row1 ! c)"
        by auto
      have e: "phi_inputs_loop tv t na nb row j = Some row'"
        using le True v a r by (subst phi_inputs_loop.simps) simp
      have "row' ! c =
          (if na + j \<le> int c \<and> int c \<le> na + nb \<and> t - (int c - na) \<ge> 0
           then tv ! nat (t - (int c - na)) else row ! c)" if "c < length row" for c
      proof (cases "int c = na + j")
        case True
        then have "c = nat (na + j)" by simp
        moreover from True have "int c - na = j" by simp
        ultimately show ?thesis using c that True le \<open>t - j \<ge> 0\<close> by simp
      next
        case False
        then have "c \<noteq> nat (na + j)" using "1.prems" by auto
        with c that False show ?thesis by auto
      qed
      with e l show ?thesis by blast
    qed
  qed
qed

lemma phi_row_built:
  assumes "0 \<le> na" and "0 \<le> nb" and "t < int (length dv)" and "t < int (length tv)"
  shows "\<exists>row1. phi_values_loop dv t na (replicate (nat (na + nb + 1)) 0) 1 = Some row1
      \<and> phi_inputs_loop tv t na nb row1 0 = Some (phi_row dv tv na nb t)"
proof -
  let ?z = "replicate (nat (na + nb + 1)) (0::'a)"
  from phi_values_loop_result [of 1 t dv na ?z] assms
  obtain row1 where r1: "phi_values_loop dv t na ?z 1 = Some row1"
    and l1: "length row1 = nat (na + nb + 1)"
    and c1: "\<forall>c < nat (na + nb + 1). row1 ! c =
          (if 1 \<le> int c + 1 \<and> int c + 1 \<le> na \<and> t - (int c + 1) \<ge> 0
           then - dv ! nat (t - (int c + 1)) else ?z ! c)"
    by auto
  from phi_inputs_loop_result [of 0 na t tv nb row1] assms l1
  obtain row2 where r2: "phi_inputs_loop tv t na nb row1 0 = Some row2"
    and l2: "length row2 = nat (na + nb + 1)"
    and c2: "\<forall>c < nat (na + nb + 1). row2 ! c =
          (if na + 0 \<le> int c \<and> int c \<le> na + nb \<and> t - (int c - na) \<ge> 0
           then tv ! nat (t - (int c - na)) else row1 ! c)"
    by auto
  have "row2 = phi_row dv tv na nb t"
  proof (rule nth_equalityI)
    show "length row2 = length (phi_row dv tv na nb t)"
      using l2 by (simp add: phi_row_def)
    fix c assume "c < length row2"
    with l2 have c: "c < nat (na + nb + 1)" by simp
    then have "int c \<le> na + nb" by auto
    with c c1 c2 show "row2 ! c = phi_row dv tv na nb t ! c"
      by (auto simp: phi_row_def)
  qed
  with r1 r2 show ?thesis by blast
qed


lemma phi_row_length: "length (phi_row Y P na nb t) = nat (na + nb + 1)"
  by (simp add: phi_row_def)

lemma phi_row_nth:
  "c < nat (na + nb + 1) \<Longrightarrow> phi_row Y P na nb t ! c =
     (if int c < na
      then (if t - (int c + 1) \<ge> 0 then - Y ! nat (t - (int c + 1)) else 0)
      else (if t - (int c - na) \<ge> 0 then P ! nat (t - (int c - na)) else 0))"
  by (simp add: phi_row_def)

lemma SetRow_ok:
  "0 \<le> i \<Longrightarrow> i < int (length M) \<Longrightarrow> \<forall>r \<in> set M. length r = length src \<Longrightarrow>
   SetRow M i src = Some (M[nat i := src])"
proof -
  assume a: "0 \<le> i" "i < int (length M)" "\<forall>r \<in> set M. length r = length src"
  then have "M \<noteq> []" by auto
  then have "hd M \<in> set M" by simp
  with a show ?thesis by (simp add: SetRow_def Dims_def)
qed

lemma phi_rows_loop_result:
  "ncols = na + nb + 1 \<Longrightarrow> 0 \<le> na \<Longrightarrow> 0 \<le> nb \<Longrightarrow>
   numRows + m \<le> int (length dv) \<Longrightarrow> numRows + m \<le> int (length tv) \<Longrightarrow>
   0 \<le> i \<Longrightarrow> int (length phi) = numRows \<Longrightarrow> \<forall>r \<in> set phi. length r = nat ncols \<Longrightarrow>
   \<exists>phi'. phi_rows_loop dv tv na nb m ncols numRows phi i = Some phi'
     \<and> length phi' = length phi
     \<and> (\<forall>r < length phi. phi' ! r =
          (if i \<le> int r then phi_row dv tv na nb (int r + m) else phi ! r))"
proof (induction dv tv na nb m ncols numRows phi i rule: phi_rows_loop.induct)
  case (1 dv tv na nb m ncols numRows phi i)
  show ?case
  proof (cases "i < numRows")
    case False
    with "1.prems" show ?thesis by (subst phi_rows_loop.simps) auto
  next
    case True
    let ?z = "replicate (nat ncols) (0::'a)"
    let ?row = "phi_row dv tv na nb (i + m)"
    let ?phi1 = "phi[nat i := ?row]"
    have mk: "make_slice ncols = Some ?z"
      using "1.prems" by (simp add: make_slice_def)
    from phi_row_built [of na nb "i + m" dv tv] "1.prems" True
    obtain row1 where r1: "phi_values_loop dv (i + m) na ?z 1 = Some row1"
      and r2: "phi_inputs_loop tv (i + m) na nb row1 0 = Some ?row"
      by auto
    have sr: "SetRow phi i ?row = Some ?phi1"
      using "1.prems" True by (intro SetRow_ok) (simp_all add: phi_row_length)
    have inv: "\<forall>r \<in> set ?phi1. length r = nat ncols"
    proof
      fix r assume "r \<in> set ?phi1"
      with set_update_subset_insert [of phi "nat i" ?row]
      have "r \<in> insert ?row (set phi)" by blast
      with "1.prems" show "length r = nat ncols" by (auto simp: phi_row_length)
    qed
    from "1.IH" [OF True mk r1 r2 sr] "1.prems" inv
    obtain phi' where r: "phi_rows_loop dv tv na nb m ncols numRows ?phi1 (i + 1) = Some phi'"
      and l: "length phi' = length phi"
      and c: "\<forall>r < length phi. phi' ! r =
          (if i + 1 \<le> int r then phi_row dv tv na nb (int r + m) else ?phi1 ! r)"
      by auto
    have e: "phi_rows_loop dv tv na nb m ncols numRows phi i = Some phi'"
      using True mk r1 r2 sr r by (subst phi_rows_loop.simps) simp
    have "phi' ! r = (if i \<le> int r then phi_row dv tv na nb (int r + m) else phi ! r)"
      if "r < length phi" for r
    proof (cases "int r = i")
      case True
      then have "r = nat i" by simp
      with c that True show ?thesis by simp
    next
      case False
      then have "r \<noteq> nat i" using "1.prems" by auto
      with c that False show ?thesis by auto
    qed
    with e l show ?thesis by blast
  qed
qed

lemma constructPhiMatrix_result:
  assumes "length Y = length P" and "0 \<le> na" and "0 \<le> nb" and "m < int (length Y)"
  shows "constructPhiMatrix Y P na nb m
     = Some (Some (map (\<lambda>i. phi_row Y P na nb (int i + m)) [0..<nat (int (length Y) - m)]))"
proof -
  let ?n = "int (length Y) - m"
  let ?c = "na + nb + 1"
  let ?z = "replicate (nat ?n) (replicate (nat ?c) (0::'a))"
  have nd: "NewDense_nil ?n ?c = Some ?z"
    using assms(2-4) by (simp add: NewDense_nil_def)
  have "\<exists>phi'. phi_rows_loop Y P na nb m ?c ?n ?z 0 = Some phi'
     \<and> length phi' = length ?z
     \<and> (\<forall>r < length ?z. phi' ! r =
          (if 0 \<le> int r then phi_row Y P na nb (int r + m) else ?z ! r))"
  proof (rule phi_rows_loop_result)
    show "?n + m \<le> int (length P)" using assms(1) by simp
    show "int (length ?z) = ?n" using assms(4) by simp
  qed (use assms(2,3) in simp_all)
  then obtain phi' where r: "phi_rows_loop Y P na nb m ?c ?n ?z 0 = Some phi'"
    and l: "length phi' = nat ?n"
    and c: "\<forall>r < nat ?n. phi' ! r = phi_row Y P na nb (int r + m)"
    by auto
  have p: "phi' = map (\<lambda>i. phi_row Y P na nb (int i + m)) [0..<nat ?n]"
    using l c by (intro nth_equalityI) simp_all
  have "\<not> ?n \<le> 0" using assms(4) by simp
  then have "constructPhiMatrix Y P na nb m = Some (Some phi')"
    unfolding constructPhiMatrix_def Let_def using nd r by simp
  with p show ?thesis by simp
qed

text \<open>
  Claim C3. For series \<open>Y\<close> and \<open>P\<close> of one length \<open>N\<close> and lags \<open>na \<ge> 0\<close>, \<open>nb \<ge> 0\<close>:
  when \<open>N \<le> m\<close> the builder returns \<^verbatim>\<open>nil\<close>; otherwise it returns a matrix with
  \<open>N - m\<close> rows of \<open>na + nb + 1\<close> columns in which row \<open>i\<close>, with \<open>t = i + m\<close>, has
  \<open>-Y[t-j]\<close> in column \<open>j - 1\<close> for \<open>j = 1..na\<close> and \<open>P[t-j]\<close> in column \<open>na + j\<close> for
  \<open>j = 0..nb\<close>, and \<open>0\<close> in place of a term with \<open>t - j < 0\<close>. This holds for every \<open>m\<close>,
  in particular for \<open>m = max na nb\<close>, and for every interpretation of the negation.
\<close>

theorem constructPhiMatrix_shape_and_entries:
  assumes "length Y = length P" and "0 \<le> na" and "0 \<le> nb"
  shows "(int (length Y) \<le> m \<longrightarrow> constructPhiMatrix Y P na nb m = Some None)
   \<and> (m < int (length Y) \<longrightarrow>
        (\<exists>phi. constructPhiMatrix Y P na nb m = Some (Some phi)
           \<and> int (length phi) = int (length Y) - m
           \<and> (\<forall>i < length phi.
                 int (length (phi ! i)) = na + nb + 1
               \<and> (\<forall>j. 1 \<le> j \<and> j \<le> na \<longrightarrow>
                     phi ! i ! nat (j - 1)
                       = (if int i + m - j \<ge> 0 then - Y ! nat (int i + m - j) else 0))
               \<and> (\<forall>j. 0 \<le> j \<and> j \<le> nb \<longrightarrow>
                     phi ! i ! nat (na + j)
                       = (if int i + m - j \<ge> 0 then P ! nat (int i + m - j) else 0)))))"
proof (intro conjI impI)
  assume "int (length Y) \<le> m"
  then show "constructPhiMatrix Y P na nb m = Some None"
    by (simp add: constructPhiMatrix_def Let_def)
next
  assume m: "m < int (length Y)"
  let ?phi = "map (\<lambda>i. phi_row Y P na nb (int i + m)) [0..<nat (int (length Y) - m)]"
  have e: "constructPhiMatrix Y P na nb m = Some (Some ?phi)"
    using assms m by (rule constructPhiMatrix_result)
  have l: "int (length ?phi) = int (length Y) - m" using m by simp
  have rows: "\<forall>i < length ?phi.
        int (length (?phi ! i)) = na + nb + 1
      \<and> (\<forall>j. 1 \<le> j \<and> j \<le> na \<longrightarrow>
            ?phi ! i ! nat (j - 1)
              = (if int i + m - j \<ge> 0 then - Y ! nat (int i + m - j) else 0))
      \<and> (\<forall>j. 0 \<le> j \<and> j \<le> nb \<longrightarrow>
            ?phi ! i ! nat (na + j)
              = (if int i + m - j \<ge> 0 then P ! nat (int i + m - j) else 0))"
  proof (intro conjI allI impI)
    fix i assume "i < length ?phi"
    then have row: "?phi ! i = phi_row Y P na nb (int i + m)" by simp
    show "int (length (?phi ! i)) = na + nb + 1"
      unfolding row phi_row_length using assms(2,3) by simp
    fix j
    {
      assume j: "1 \<le> j \<and> j \<le> na"
      then have c: "nat (j - 1) < nat (na + nb + 1)" and "int (nat (j - 1)) = j - 1"
        and "int i + m - (j - 1 + 1) = int i + m - j"
        using assms by auto
      with j show "?phi ! i ! nat (j - 1)
          = (if int i + m - j \<ge> 0 then - Y ! nat (int i + m - j) else 0)"
        unfolding row phi_row_nth [OF c] by simp
    }
    {
      assume j: "0 \<le> j \<and> j \<le> nb"
      then have c: "nat (na + j) < nat (na + nb + 1)" and "int (nat (na + j)) = na + j"
        and "int i + m - (na + j - na) = int i + m - j"
        using assms by auto
      with j show "?phi ! i ! nat (na + j)
          = (if int i + m - j \<ge> 0 then P ! nat (int i + m - j) else 0)"
        unfolding row phi_row_nth [OF c] by simp
    }
  qed
  show "\<exists>phi. constructPhiMatrix Y P na nb m = Some (Some phi)
           \<and> int (length phi) = int (length Y) - m
           \<and> (\<forall>i < length phi.
                 int (length (phi ! i)) = na + nb + 1
               \<and> (\<forall>j. 1 \<le> j \<and> j \<le> na \<longrightarrow>
                     phi ! i ! nat (j - 1)
                       = (if int i + m - j \<ge> 0 then - Y ! nat (int i + m - j) else 0))
               \<and> (\<forall>j. 0 \<le> j \<and> j \<le> nb \<longrightarrow>
                     phi ! i ! nat (na + j)
                       = (if int i + m - j \<ge> 0 then P ! nat (int i + m - j) else 0)))"
    by (intro exI [of _ ?phi] conjI e l rows)
qed


theorem constructPhiMatrix_shape_and_entries_witness:
  "length [1, 2, 3, 4, 5 :: real] = length [10, 20, 30, 40, 50 :: real]
   \<and> (0 :: int) \<le> 2 \<and> (0 :: int) \<le> 1
   \<and> constructPhiMatrix [1, 2, 3, 4, 5 :: real] [10, 20, 30, 40, 50] 2 1 (max 2 1)
       = Some (Some [[- 2, - 1, 30, 20], [- 3, - 2, 40, 30], [- 4, - 3, 50, 40]])
   \<and> int (length [[- 2, - 1, 30, 20], [- 3, - 2, 40, 30], [- 4, - 3, 50, 40 :: real]])
       = int (length [1, 2, 3, 4, 5 :: real]) - max 2 1
   \<and> [[- 2, - 1, 30, 20], [- 3, - 2, 40, 30], [- 4, - 3, 50, 40 :: real]] ! 1 ! nat (2 - 1)
       = - [1, 2, 3, 4, 5 :: real] ! nat (int 1 + max 2 1 - 2)
   \<and> [[- 2, - 1, 30, 20], [- 3, - 2, 40, 30], [- 4, - 3, 50, 40 :: real]] ! 1 ! nat (2 + 1)
       = [10, 20, 30, 40, 50 :: real] ! nat (int 1 + max 2 1 - 1)
   \<and> constructPhiMatrix [1, 2 :: real] [10, 20] 2 1 (max 2 1) = Some None"
proof -
  let ?Y = "[1, 2, 3, 4, 5 :: real]" and ?P = "[10, 20, 30, 40, 50 :: real]"
  let ?phi = "[[- 2, - 1, 30, 20], [- 3, - 2, 40, 30], [- 4, - 3, 50, 40 :: real]]"
  have h: "length ?Y = length ?P" "(0 :: int) \<le> 2" "(0 :: int) \<le> 1"
    by simp_all
  have h': "length [1, 2 :: real] = length [10, 20 :: real]" by simp
  have e: "constructPhiMatrix ?Y ?P 2 1 (max 2 1) = Some (Some ?phi)"
    by code_simp
  from constructPhiMatrix_shape_and_entries [OF h', of 2 1 "max 2 1", OF h(2,3)]
  have nil: "constructPhiMatrix [1, 2 :: real] [10, 20] 2 1 (max 2 1) = Some None"
    by simp
  have "max 2 1 < int (length ?Y)" by simp
  from constructPhiMatrix_shape_and_entries [OF h, of "max 2 1", THEN conjunct2, rule_format, OF this]
  have l: "int (length ?phi) = int (length ?Y) - max 2 1"
    and rows: "\<forall>i < length ?phi.
                 int (length (?phi ! i)) = 2 + 1 + 1
               \<and> (\<forall>j. 1 \<le> j \<and> j \<le> 2 \<longrightarrow>
                     ?phi ! i ! nat (j - 1)
                       = (if int i + max 2 1 - j \<ge> 0 then - ?Y ! nat (int i + max 2 1 - j) else 0))
               \<and> (\<forall>j. 0 \<le> j \<and> j \<le> 1 \<longrightarrow>
                     ?phi ! i ! nat (2 + j)
                       = (if int i + max 2 1 - j \<ge> 0 then ?P ! nat (int i + max 2 1 - j) else 0))"
    unfolding e by blast+
  from rows [rule_format, of 1] have
    a: "\<forall>j. 1 \<le> j \<and> j \<le> 2 \<longrightarrow>
          ?phi ! 1 ! nat (j - 1)
            = (if int 1 + max 2 1 - j \<ge> 0 then - ?Y ! nat (int 1 + max 2 1 - j) else 0)"
    and b: "\<forall>j. 0 \<le> j \<and> j \<le> 1 \<longrightarrow>
          ?phi ! 1 ! nat (2 + j)
            = (if int 1 + max 2 1 - j \<ge> 0 then ?P ! nat (int 1 + max 2 1 - j) else 0)"
    by simp_all
  from a [rule_format, of 2] have a2: "?phi ! 1 ! nat (2 - 1) = - ?Y ! nat (int 1 + max 2 1 - 2)"
    by simp
  from b [rule_format, of 1] have b1: "?phi ! 1 ! nat (2 + 1) = ?P ! nat (int 1 + max 2 1 - 1)"
    by simp
  from h e l a2 b1 nil show ?thesis by blast
qed


section \<open>Coefficients and Predict\<close>

lemma length_T: "length (T M) = length (hd M)"
  by (simp add: T_def)

lemma hd_T: "hd M \<noteq> [] \<Longrightarrow> hd (T M) = column M 0"
  by (simp add: T_def hd_map)

lemma length_column: "length (column M j) = length M"
  by (simp add: column_def)

lemma length_mat_mul: "length (mat_mul A B) = length A"
  by (simp add: mat_mul_def)

lemma hd_mat_mul: "A \<noteq> [] \<Longrightarrow> length (hd (mat_mul A B)) = length (hd B)"
  by (simp add: mat_mul_def hd_map)

lemma NewDense_column:
  "ys \<noteq> [] \<Longrightarrow> NewDense (int (length ys)) 1 ys = Some (map (\<lambda>v. [v]) ys)"
proof -
  assume "ys \<noteq> []"
  have one: "take (Suc 0) (drop i ys) = [ys ! i]" if "i < length ys" for i
    using take_Suc_conv_app_nth [of 0 "drop i ys"] that by simp
  have "map (\<lambda>i. take (nat 1) (drop (i * nat 1) ys)) [0..<length ys] = map (\<lambda>v. [v]) ys"
    by (rule nth_equalityI) (simp_all add: one)
  with \<open>ys \<noteq> []\<close> show ?thesis by (simp add: NewDense_def)
qed

lemma copy_slice_full: "length src = length dst \<Longrightarrow> copy_slice dst src = src"
  by (simp add: copy_slice_def)

lemma calculateTheta_result:
  fixes phi :: "('a::{zero,plus,times}) dense"
  assumes wf: "wf_dense phi" and len: "length phi \<le> length Y"
  shows "calculateTheta Inverse phi Y =
     (let G = mat_mul (T phi) phi;
          b = mat_mul (T phi) (tail_column Y (length phi));
          Ginv = tabulate (length (hd phi)) (length (hd phi)) (fst (Inverse G));
          err = snd (Inverse G)
      in if err \<noteq> None \<and> err \<noteq> Some ErrSingular
         then Some (None, map_option ErrInversion err)
         else Some (Some (mat_mul Ginv b), map_option ErrMat err))"
proof -
  let ?R = "length phi" and ?C = "length (hd phi)"
  let ?tail = "drop (length Y - ?R) Y"
  let ?G = "mat_mul (T phi) phi"
  let ?yVec = "tail_column Y ?R"
  let ?b = "mat_mul (T phi) ?yVec"
  let ?Ginv = "tabulate ?C ?C (fst (Inverse ?G))"
  from wf have "phi \<noteq> []" and "hd phi \<noteq> []"
    unfolding wf_dense_def by blast+
  then have R: "0 < ?R" and C: "0 < ?C" by simp_all
  have d: "Dims phi = (int ?R, int ?C)" by (simp add: Dims_def)
  have tne: "T phi \<noteq> []" using C length_T [of phi] by auto
  have dT: "Dims (T phi) = (int ?C, int ?R)"
    using C by (simp add: Dims_def length_T hd_T length_column)
  have mk: "make_slice (int ?R) = Some (replicate ?R (0::'a))"
    by (simp add: make_slice_def)
  have "nat (int (length Y) - int ?R) = length Y - ?R" by simp
  then have sf: "slice_from Y (int (length Y) - int ?R) = Some ?tail"
    using len by (simp add: slice_from_def)
  have ltail: "length ?tail = ?R" using len by simp
  then have cp: "copy_slice (replicate ?R (0::'a)) ?tail = ?tail"
    by (simp add: copy_slice_full)
  have z1: "NewDense_nil (int ?C) (int ?C) = Some (replicate ?C (replicate ?C (0::'a)))"
    using C by (simp add: NewDense_nil_def)
  have z2: "NewDense_nil (int ?C) 1 = Some (replicate ?C [0::'a])"
    using C by (simp add: NewDense_nil_def)
  have m1: "Mul (replicate ?C (replicate ?C (0::'a))) (T phi) phi = Some ?G"
    using C d dT by (simp add: Mul_def) (simp add: Dims_def)
  have tailne: "?tail \<noteq> []" using ltail R by auto
  have yv: "NewDense (int ?R) 1 ?tail = Some ?yVec"
    using NewDense_column [OF tailne] ltail by (simp add: tail_column_def)
  have dy: "Dims ?yVec = (int ?R, 1)"
    using ltail tailne by (simp add: Dims_def tail_column_def hd_map)
  have m2: "Mul (replicate ?C [0::'a]) (T phi) ?yVec = Some ?b"
    using C dT dy by (simp add: Mul_def) (simp add: Dims_def)
  have dG: "Dims ?G = (int ?C, int ?C)"
    using tne by (simp add: Dims_def length_mat_mul hd_mat_mul length_T)
  have iv: "Inverse_into Inverse (replicate ?C (replicate ?C (0::'a))) ?G
      = Some (?Ginv, snd (Inverse ?G))"
    using C dG by (simp add: Inverse_into_def) (simp add: Dims_def)
  have dGinv: "Dims ?Ginv = (int ?C, int ?C)"
    using C by (simp add: Dims_def tabulate_def hd_map)
  have db: "Dims ?b = (int ?C, 1)"
    using tne dy by (simp add: Dims_def length_mat_mul hd_mat_mul length_T)
  have m3: "Mul (replicate ?C [0::'a]) ?Ginv ?b = Some (mat_mul ?Ginv ?b)"
    using C dGinv db by (simp add: Mul_def) (simp add: Dims_def)
  show ?thesis
    unfolding calculateTheta_def d Let_def
    by (simp add: mk sf cp z1 z2 m1 yv m2 iv m3)
qed


subsection \<open>The loops of Predict\<close>

lemma split_loop_result:
  "\<forall>row \<in> set rows. 2 \<le> length row \<Longrightarrow> 0 \<le> i \<Longrightarrow> length tv = length dv \<Longrightarrow>
   int (length dv) = i + int (length rows) \<Longrightarrow>
   split_loop rows i dv tv
     = Some (take (nat i) dv @ dataValues_of rows, take (nat i) tv @ timeValues_of rows)"
proof (induction rows arbitrary: i dv tv)
  case Nil
  then show ?case by (simp add: dataValues_of_def timeValues_of_def)
next
  case (Cons row rest)
  let ?dv = "dv[nat i := row ! 0]" and ?tv = "tv[nat i := row ! 1]"
  from Cons.prems have i: "nat i < length dv" "nat i < length tv" by auto
  have y: "slice_index row 0 = Some (row ! 0)" and p: "slice_index row 1 = Some (row ! 1)"
    using Cons.prems(1) by (auto simp: slice_index_def)
  have a: "slice_assign dv i (row ! 0) = Some ?dv" and b: "slice_assign tv i (row ! 1) = Some ?tv"
    using Cons.prems by (simp_all add: slice_assign_def)
  have n: "nat (i + 1) = Suc (nat i)" using Cons.prems(2) by simp
  have "split_loop rest (i + 1) ?dv ?tv
     = Some (take (nat (i + 1)) ?dv @ dataValues_of rest, take (nat (i + 1)) ?tv @ timeValues_of rest)"
    using Cons.prems by (intro Cons.IH) simp_all
  moreover have "take (nat (i + 1)) ?dv = take (nat i) dv @ [row ! 0]"
    and "take (nat (i + 1)) ?tv = take (nat i) tv @ [row ! 1]"
    using i by (simp_all add: n take_Suc_conv_app_nth)
  ultimately show ?case
    using y p a b by (simp add: dataValues_of_def timeValues_of_def)
qed

lemma combine_loop_result:
  "length yAp = length pl \<Longrightarrow> length result = length pl \<Longrightarrow> 0 \<le> i \<Longrightarrow>
   combine_loop pl yAp result i
     = Some (take (nat i) result @ map (\<lambda>k. [pl ! k, yAp ! k]) [nat i..<length pl])"
proof (induction pl yAp result i rule: combine_loop.induct)
  case (1 pl yAp result i)
  show ?case
  proof (cases "i < int (length pl)")
    case False
    with "1.prems" show ?thesis by (subst combine_loop.simps) simp
  next
    case True
    let ?r = "result[nat i := [pl ! nat i, yAp ! nat i]]"
    from True "1.prems" have i: "nat i < length pl" by simp
    have p: "slice_index pl i = Some (pl ! nat i)" and y: "slice_index yAp i = Some (yAp ! nat i)"
      using True "1.prems" by (simp_all add: slice_index_def)
    have a: "slice_assign result i [pl ! nat i, yAp ! nat i] = Some ?r"
      using True "1.prems" by (simp add: slice_assign_def)
    have n: "nat (i + 1) = Suc (nat i)" using "1.prems" by simp
    from "1.IH" [OF True p y a] "1.prems"
    have "combine_loop pl yAp ?r (i + 1)
       = Some (take (nat (i + 1)) ?r @ map (\<lambda>k. [pl ! k, yAp ! k]) [nat (i + 1)..<length pl])"
      by simp
    moreover have "take (nat (i + 1)) ?r = take (nat i) result @ [[pl ! nat i, yAp ! nat i]]"
      using i "1.prems" by (simp add: n take_Suc_conv_app_nth)
    moreover have "[nat i..<length pl] = nat i # [nat (i + 1)..<length pl]"
      using i by (simp add: n upt_conv_Cons)
    ultimately show ?thesis
      using True p y a by (subst combine_loop.simps) simp
  qed
qed


subsection \<open>Predict on a series that is long enough\<close>

lemma upt_from_0: "0 < n \<Longrightarrow> [0..<n] \<noteq> [] \<and> hd [0..<n] = 0"
  by simp

lemma wf_dense_rows:
  "0 < n \<Longrightarrow> 0 < c \<Longrightarrow> \<forall>i < n. length (f i) = c \<Longrightarrow> wf_dense (map f [0..<n])"
  by (auto simp: wf_dense_def hd_map)

lemma design_matrix_built:
  fixes p :: "('a::{zero,uminus}) Predictor"
  assumes "0 \<le> AutoregressiveLags (Params p)" and "0 \<le> ExternalInputLags (Params p)"
    and "max (AutoregressiveLags (Params p)) (ExternalInputLags (Params p)) < int (length (Data p))"
  shows "constructPhiMatrix (dataValues_of (Data p)) (timeValues_of (Data p))
           (AutoregressiveLags (Params p)) (ExternalInputLags (Params p))
           (max (AutoregressiveLags (Params p)) (ExternalInputLags (Params p)))
         = Some (Some (design_matrix p))"
    and "wf_dense (design_matrix p)"
    and "length (design_matrix p) \<le> length (Data p)"
    and "int (length (hd (design_matrix p)))
           = AutoregressiveLags (Params p) + ExternalInputLags (Params p) + 1"
proof -
  let ?na = "AutoregressiveLags (Params p)" and ?nb = "ExternalInputLags (Params p)"
  let ?Y = "dataValues_of (Data p)" and ?P = "timeValues_of (Data p)"
  let ?m = "max ?na ?nb"
  let ?n = "nat (int (length ?Y) - ?m)"
  let ?phi = "map (\<lambda>i. phi_row ?Y ?P ?na ?nb (int i + ?m)) [0..<?n]"
  have lY: "length ?Y = length (Data p)" and lP: "length ?Y = length ?P"
    by (simp_all add: dataValues_of_def timeValues_of_def)
  have c: "constructPhiMatrix ?Y ?P ?na ?nb ?m = Some (Some ?phi)"
    using assms lY by (intro constructPhiMatrix_result lP) simp_all
  then have d: "design_matrix p = ?phi"
    by (simp add: design_matrix_def Let_def)
  from c d show "constructPhiMatrix ?Y ?P ?na ?nb ?m = Some (Some (design_matrix p))"
    by simp
  have n: "0 < ?n" using assms(3) lY by simp
  have "wf_dense ?phi"
    using n assms(1,2) by (intro wf_dense_rows [where c = "nat (?na + ?nb + 1)"])
      (simp_all add: phi_row_length)
  with d show "wf_dense (design_matrix p)" by simp
  show "length (design_matrix p) \<le> length (Data p)"
    using assms lY by (simp add: d)
  have ne: "[0..<?n] \<noteq> []" and h0: "hd [0..<?n] = 0"
    using upt_from_0 [OF n] by blast+
  have "hd ?phi = phi_row ?Y ?P ?na ?nb (int 0 + ?m)"
    unfolding hd_map [OF ne] h0 ..
  then show "int (length (hd (design_matrix p))) = ?na + ?nb + 1"
    using assms(1,2) by (simp add: d phi_row_length)
qed

lemma Predict_unfold:
  fixes p :: "('a::{zero,plus,minus,uminus,times}) Predictor"
  assumes rows: "\<forall>row \<in> set (Data p). 2 \<le> length row"
    and na: "0 \<le> AutoregressiveLags (Params p)" and nb: "0 \<le> ExternalInputLags (Params p)"
    and m: "max (AutoregressiveLags (Params p)) (ExternalInputLags (Params p))
              < int (length (Data p))"
    and pl: "extendTimeValues float64 (timeValues_of (Data p)) numToPredict (StepSize (Params p))
              = Some pl"
  shows "Predict float64 Inverse p numToPredict =
     do {
       (th, err) \<leftarrow> calculateTheta Inverse (design_matrix p) (dataValues_of (Data p));
       if err \<noteq> None \<and> err \<noteq> Some (ErrMat ErrSingular)
       then Some (None, map_option ErrTheta err)
       else do {
         yAp \<leftarrow> performPrediction (dataValues_of (Data p)) pl th
                  (max (AutoregressiveLags (Params p)) (ExternalInputLags (Params p)))
                  (AutoregressiveLags (Params p)) (ExternalInputLags (Params p));
         result \<leftarrow> combine_loop pl yAp (replicate (length pl) []) 0;
         Some (Some result, err)
       }
     }"
proof -
  let ?N = "length (Data p)"
  let ?z = "replicate ?N (0::'a)"
  have mk: "make_slice (int ?N) = Some ?z" by (simp add: make_slice_def)
  have sp: "split_loop (Data p) 0 ?z ?z = Some (dataValues_of (Data p), timeValues_of (Data p))"
    using split_loop_result [OF rows, of 0 ?z ?z] by simp
  have nm: "\<not> int ?N \<le> max (AutoregressiveLags (Params p)) (ExternalInputLags (Params p))"
    using m by linarith
  show ?thesis
    unfolding Predict_def Let_def
    by (simp add: nm mk sp pl design_matrix_built(1) [OF na nb m])
qed


lemma timeValues_nonempty:
  "max na nb < int (length data) \<Longrightarrow> 0 \<le> na \<Longrightarrow> timeValues_of data \<noteq> []"
  by (auto simp: timeValues_of_def)

lemma calculateTheta_on_design:
  fixes p :: "('a::{zero,plus,minus,uminus,times}) Predictor"
  assumes na: "0 \<le> AutoregressiveLags (Params p)" and nb: "0 \<le> ExternalInputLags (Params p)"
    and m: "max (AutoregressiveLags (Params p)) (ExternalInputLags (Params p))
              < int (length (Data p))"
  shows "calculateTheta Inverse (design_matrix p) (dataValues_of (Data p)) =
     (let phi = design_matrix p;
          b = mat_mul (T phi) (tail_column (dataValues_of (Data p)) (length phi));
          Ginv = tabulate (length (hd phi)) (length (hd phi))
                   (fst (Inverse (mat_mul (T phi) phi)));
          err = inversion_error Inverse p
      in if err \<noteq> None \<and> err \<noteq> Some ErrSingular
         then Some (None, map_option ErrInversion err)
         else Some (Some (mat_mul Ginv b), map_option ErrMat err))"
proof -
  have "length (design_matrix p) \<le> length (dataValues_of (Data p))"
    using design_matrix_built(3) [OF na nb m] by (simp add: dataValues_of_def)
  from calculateTheta_result [OF design_matrix_built(2) [OF na nb m] this, of Inverse]
  show ?thesis by (simp add: Let_def inversion_error_def)
qed

lemma Predict_fatal:
  fixes p :: "('a::{zero,plus,minus,uminus,times}) Predictor"
  assumes rows: "\<forall>row \<in> set (Data p). 2 \<le> length row"
    and na: "0 \<le> AutoregressiveLags (Params p)" and nb: "0 \<le> ExternalInputLags (Params p)"
    and m: "max (AutoregressiveLags (Params p)) (ExternalInputLags (Params p))
              < int (length (Data p))"
    and H: "0 \<le> numToPredict"
    and e: "inversion_error Inverse p = Some e" "e \<noteq> ErrSingular"
  shows "Predict float64 Inverse p numToPredict = Some (None, Some (ErrTheta (ErrInversion e)))"
proof -
  from extendTimeValues_result [OF timeValues_nonempty [OF m na] H]
  obtain pl where pl: "extendTimeValues float64 (timeValues_of (Data p)) numToPredict
      (StepSize (Params p)) = Some pl"
    by blast
  show ?thesis
    unfolding Predict_unfold [OF rows na nb m pl] calculateTheta_on_design [OF na nb m]
    using e by (simp add: Let_def)
qed

lemma Predict_nonfatal:
  fixes p :: "('a::{zero,plus,minus,uminus,times}) Predictor"
  assumes rows: "\<forall>row \<in> set (Data p). 2 \<le> length row"
    and na: "0 \<le> AutoregressiveLags (Params p)" and nb: "0 \<le> ExternalInputLags (Params p)"
    and m: "max (AutoregressiveLags (Params p)) (ExternalInputLags (Params p))
              < int (length (Data p))"
    and pl: "extendTimeValues float64 (timeValues_of (Data p)) numToPredict
               (StepSize (Params p)) = Some pl"
    and e: "inversion_error Inverse p = None \<or> inversion_error Inverse p = Some ErrSingular"
  shows "\<exists>yAp. length yAp = length pl
     \<and> Predict float64 Inverse p numToPredict
         = Some (Some (map (\<lambda>k. [pl ! k, yAp ! k]) [0..<length pl]),
                 map_option ErrMat (inversion_error Inverse p))"
proof -
  let ?na = "AutoregressiveLags (Params p)" and ?nb = "ExternalInputLags (Params p)"
  let ?phi = "design_matrix p"
  let ?Y = "dataValues_of (Data p)"
  let ?b = "mat_mul (T ?phi) (tail_column ?Y (length ?phi))"
  let ?Ginv = "tabulate (length (hd ?phi)) (length (hd ?phi))
                 (fst (Inverse (mat_mul (T ?phi) ?phi)))"
  let ?th = "mat_mul ?Ginv ?b"
  note dm = design_matrix_built [OF na nb m]
  from dm(2) have "?phi \<noteq> []" and hne: "hd ?phi \<noteq> []"
    unfolding wf_dense_def by blast+
  have ct: "calculateTheta Inverse ?phi ?Y
      = Some (Some ?th, map_option ErrMat (inversion_error Inverse p))"
    unfolding calculateTheta_on_design [OF na nb m] using e by (auto simp: Let_def)
  have lth: "int (length ?th) = ?na + ?nb + 1"
    using dm(4) by (simp add: length_mat_mul tabulate_def)
  have "?Ginv \<noteq> []" using hne by (simp add: tabulate_def)
  moreover have "T ?phi \<noteq> []" using hne length_T [of ?phi] by auto
  moreover have "length (drop (length ?Y - length ?phi) ?Y) = length ?phi"
    using dm(3) by (simp add: dataValues_of_def)
  with \<open>?phi \<noteq> []\<close> have "drop (length ?Y - length ?phi) ?Y \<noteq> []"
    by (metis length_0_conv)
  then have "tail_column ?Y (length ?phi) \<noteq> []"
    by (simp add: tail_column_def)
  then have "length (hd (tail_column ?Y (length ?phi))) = 1"
    by (simp add: tail_column_def hd_map)
  ultimately have "length (hd ?th) = 1"
    by (simp add: hd_mat_mul)
  then have hth: "hd ?th \<noteq> []" by auto
  have m1: "- 1 \<le> max ?na ?nb" using na by linarith
  have lt: "?na + ?nb < int (length ?th)" using lth by linarith
  from performPrediction_total [OF m1 na nb lt hth, of ?Y pl]
  obtain yAp where pp: "performPrediction ?Y pl (Some ?th) (max ?na ?nb) ?na ?nb = Some yAp"
    by blast
  from performPrediction_seed(1) [OF pp] have ly: "length yAp = length pl" .
  from combine_loop_result [OF ly, of "replicate (length pl) []" 0]
  have cl: "combine_loop pl yAp (replicate (length pl) []) 0
      = Some (map (\<lambda>k. [pl ! k, yAp ! k]) [0..<length pl])"
    by simp
  have "Predict float64 Inverse p numToPredict
         = Some (Some (map (\<lambda>k. [pl ! k, yAp ! k]) [0..<length pl]),
                 map_option ErrMat (inversion_error Inverse p))"
    unfolding Predict_unfold [OF rows na nb m pl] ct using e pp cl by auto
  with ly show ?thesis by blast
qed


lemma NewPredictor_Some:
  "NewPredictor data params = (Some p, None) \<Longrightarrow>
     p = \<lparr>Data = data, Params = params\<rparr> \<and> 0 < AutoregressiveLags params
     \<and> 0 \<le> ExternalInputLags params \<and> \<not> StepSize params \<le> 0"
  by (auto simp: NewPredictor_def split: if_splits)

lemma last_input:
  "data \<noteq> [] \<Longrightarrow> last (timeValues_of data) = last data ! 1"
  by (simp add: timeValues_of_def last_map)

text \<open>
  What \<open>Predict\<close> returns for a predictor that \<open>NewPredictor\<close> built, on a series of
  \<open>N > m\<close> rows \<^verbatim>\<open>[value, input]\<close> and a horizon \<open>H \<ge> 0\<close>. If the inversion reports an
  error other than \<^verbatim>\<open>mat.ErrSingular\<close>, there is no result. Otherwise there are \<open>N + H\<close>
  pairs, the first \<open>N\<close> inputs are the historical ones, and the input of the final pair
  is \<open>lastHistoricalInput + float64 H * StepSize\<close> for \<open>H \<ge> 1\<close> and the last historical
  input for \<open>H = 0\<close>.
\<close>

lemma Predict_outcome:
  fixes p :: "('a::{zero,plus,minus,uminus,times,ord}) Predictor"
  assumes built: "NewPredictor data params = (Some p, None)"
    and rows: "\<forall>row \<in> set data. 2 \<le> length row"
    and m: "max (AutoregressiveLags params) (ExternalInputLags params) < int (length data)"
    and H: "0 \<le> numToPredict"
  shows "(\<forall>e. inversion_error Inverse p = Some e \<and> e \<noteq> ErrSingular \<longrightarrow>
            Predict float64 Inverse p numToPredict
              = Some (None, Some (ErrTheta (ErrInversion e))))
     \<and> (inversion_error Inverse p = None \<or> inversion_error Inverse p = Some ErrSingular \<longrightarrow>
          (\<exists>result. Predict float64 Inverse p numToPredict
                = Some (Some result, map_option ErrMat (inversion_error Inverse p))
             \<and> length result = length data + nat numToPredict
             \<and> (\<forall>k < length result. length (result ! k) = 2)
             \<and> (\<forall>k < length data. result ! k ! 0 = data ! k ! 1)
             \<and> (1 \<le> numToPredict \<longrightarrow>
                   last result ! 0 = last data ! 1 + float64 numToPredict * StepSize params)
             \<and> (numToPredict = 0 \<longrightarrow> last result ! 0 = last data ! 1)))"
proof (intro conjI allI impI)
  from NewPredictor_Some [OF built]
  have p: "Data p = data" "Params p = params"
    and na: "0 \<le> AutoregressiveLags (Params p)" and nb: "0 \<le> ExternalInputLags (Params p)"
    by simp_all
  note rows' = rows [folded p(1)] and m' = m [folded p]
  {
    fix e assume "inversion_error Inverse p = Some e \<and> e \<noteq> ErrSingular"
    then show "Predict float64 Inverse p numToPredict
        = Some (None, Some (ErrTheta (ErrInversion e)))"
      using Predict_fatal [OF rows' na nb m' H] by blast
  }
  assume e: "inversion_error Inverse p = None \<or> inversion_error Inverse p = Some ErrSingular"
  let ?tv = "timeValues_of data"
  let ?N = "length data"
  have ne: "data \<noteq> []" using m na p by auto
  have ltv: "length ?tv = ?N" by (simp add: timeValues_of_def)
  from extendTimeValues_result [OF timeValues_nonempty [OF m' na] H, of float64 "StepSize (Params p)"]
  obtain pl where pl: "extendTimeValues float64 (timeValues_of (Data p)) numToPredict
        (StepSize (Params p)) = Some pl"
    and lpl: "length pl = ?N + nat numToPredict"
    and c: "\<forall>c < length pl. pl ! c =
          (if c < ?N then ?tv ! c
           else last ?tv + float64 (int c - int ?N + 1) * StepSize params)"
    unfolding p ltv by blast
  from Predict_nonfatal [OF rows' na nb m' pl e]
  obtain yAp where ly: "length yAp = length pl"
    and r: "Predict float64 Inverse p numToPredict
         = Some (Some (map (\<lambda>k. [pl ! k, yAp ! k]) [0..<length pl]),
                 map_option ErrMat (inversion_error Inverse p))"
    by blast
  let ?result = "map (\<lambda>k. [pl ! k, yAp ! k]) [0..<length pl]"
  have l: "length ?result = ?N + nat numToPredict" using lpl by simp
  have two: "\<forall>k < length ?result. length (?result ! k) = 2" by simp
  have hist: "\<forall>k < ?N. ?result ! k ! 0 = data ! k ! 1"
    using c lpl by (simp add: timeValues_of_def)
  have lne: "[0..<length pl] \<noteq> []" using lpl ne by simp
  have lastr: "last ?result ! 0 = pl ! (length pl - 1)"
    using lne by (simp add: last_map)
  have fut: "last ?result ! 0 = last data ! 1 + float64 numToPredict * StepSize params"
    if "1 \<le> numToPredict"
  proof -
    let ?c = "length pl - 1"
    from that lpl have "?c < length pl" and "\<not> ?c < ?N" and "int ?c - int ?N + 1 = numToPredict"
      by auto
    with c have "pl ! ?c = last ?tv + float64 numToPredict * StepSize params" by auto
    with lastr last_input [OF ne] show ?thesis by simp
  qed
  have now: "last ?result ! 0 = last data ! 1" if "numToPredict = 0"
  proof -
    let ?c = "length pl - 1"
    from that lpl ne have "?c < length pl" and "?c < ?N" and "?c = ?N - 1"
      by auto
    with c have "pl ! ?c = ?tv ! (?N - 1)" by auto
    also have "\<dots> = last ?tv" using ne ltv by (simp add: last_conv_nth timeValues_of_def)
    finally show ?thesis using lastr last_input [OF ne] by simp
  qed
  show "\<exists>result. Predict float64 Inverse p numToPredict
                = Some (Some result, map_option ErrMat (inversion_error Inverse p))
             \<and> length result = length data + nat numToPredict
             \<and> (\<forall>k < length result. length (result ! k) = 2)
             \<and> (\<forall>k < length data. result ! k ! 0 = data ! k ! 1)
             \<and> (1 \<le> numToPredict \<longrightarrow>
                   last result ! 0 = last data ! 1 + float64 numToPredict * StepSize params)
             \<and> (numToPredict = 0 \<longrightarrow> last result ! 0 = last data ! 1)"
    using fut now by (intro exI [of _ ?result] conjI r l two hist) blast+
qed


text \<open>
  Claim C1. Every predictor built with valid parameters from a series of \<open>N > m\<close> rows
  returns, for every horizon \<open>H \<ge> 0\<close>, a sequence of \<open>N + H\<close> pairs whose final input is
  \<open>lastHistoricalInput + H * StepSize\<close>. The code does not do so on the series below, with
  \<open>H = 2\<close>. Its normal matrix \<open>phi\<^sup>T phi\<close> is invertible but ill-conditioned, so that
  \<^verbatim>\<open>Inverse\<close> reports a \<^verbatim>\<open>mat.Condition\<close> error; the guards of \<^verbatim>\<open>calculateTheta\<close> and
  \<^verbatim>\<open>Predict\<close>, written to let a near-singular matrix through, test for
  \<^verbatim>\<open>mat.ErrSingular\<close> instead, and \<open>Predict\<close> returns \<^verbatim>\<open>nil\<close> and the wrapped error.
\<close>

theorem Predict_near_singular_returns_nil:
  "NewPredictor [[1, 1], [1, 1000000000], [3, 1 :: real]]
       \<lparr>AutoregressiveLags = 1, ExternalInputLags = 0, StepSize = 1\<rparr>
     = (Some \<lparr>Data = [[1, 1], [1, 1000000000], [3, 1]],
              Params = \<lparr>AutoregressiveLags = 1, ExternalInputLags = 0, StepSize = 1\<rparr>\<rparr>, None)
   \<and> max 1 0 < int (length [[1, 1], [1, 1000000000], [3, 1 :: real]])
   \<and> design_matrix \<lparr>Data = [[1, 1], [1, 1000000000], [3, 1 :: real]],
          Params = \<lparr>AutoregressiveLags = 1, ExternalInputLags = 0, StepSize = 1\<rparr>\<rparr>
       = [[- 1, 1000000000], [- 1, 1]]
   \<and> mat_mul (T [[- 1, 1000000000], [- 1, 1 :: real]]) [[- 1, 1000000000], [- 1, 1]]
       = [[2, - 1000000001], [- 1000000001, 1000000000000000001]]
   \<and> Predict of_int (\<lambda>A. (\<lambda>i j. 0, Some ErrOther))
         \<lparr>Data = [[1, 1], [1, 1000000000], [3, 1 :: real]],
          Params = \<lparr>AutoregressiveLags = 1, ExternalInputLags = 0, StepSize = 1\<rparr>\<rparr> 2
       = Some (None, Some (ErrTheta (ErrInversion ErrOther)))"
  by code_simp

text \<open>
  Claim C6. When \<open>phi\<^sup>T phi\<close> is exactly singular, coefficient estimation does not
  abort: it returns a coefficient vector together with a singular-matrix condition, and
  \<open>Predict\<close> goes on and returns the full forecast with it. The code does not do so. The
  design matrix below has the normal matrix \<open>[[5, -5], [-5, 5]]\<close>, which sends the vector
  \<open>(1, 1)\<close> to zero; \<^verbatim>\<open>Inverse\<close> reports it with a \<^verbatim>\<open>mat.Condition\<close> error, which is not
  \<^verbatim>\<open>mat.ErrSingular\<close>, and both \<open>calculateTheta\<close> and \<open>Predict\<close> return \<^verbatim>\<open>nil\<close> with the
  wrapped error. (That every other failure of the inversion is fatal, the second half
  of the claim, is what the code does.)
\<close>

theorem singular_matrix_is_fatal:
  "mat_mul (T [[- 1, 1], [- 2, 2 :: real]]) [[- 1, 1], [- 2, 2]] = [[5, - 5], [- 5, 5]]
   \<and> mat_mul [[5, - 5], [- 5, 5 :: real]] [[1], [1]] = [[0], [0]]
   \<and> calculateTheta (\<lambda>A. (\<lambda>i j. 0, Some ErrOther)) [[- 1, 1], [- 2, 2 :: real]] [1, 2, 4]
       = Some (None, Some (ErrInversion ErrOther))
   \<and> design_matrix \<lparr>Data = [[1, 0], [2, 1], [4, 2 :: real]],
          Params = \<lparr>AutoregressiveLags = 1, ExternalInputLags = 0, StepSize = 1\<rparr>\<rparr>
       = [[- 1, 1], [- 2, 2]]
   \<and> Predict of_int (\<lambda>A. (\<lambda>i j. 0, Some ErrOther))
         \<lparr>Data = [[1, 0], [2, 1], [4, 2 :: real]],
          Params = \<lparr>AutoregressiveLags = 1, ExternalInputLags = 0, StepSize = 1\<rparr>\<rparr> 2
       = Some (None, Some (ErrTheta (ErrInversion ErrOther)))"
  by code_simp

text \<open>
  The branch that would carry on exists, and is taken only for the error value
  \<^verbatim>\<open>mat.ErrSingular\<close>, which \<^verbatim>\<open>Inverse\<close> does not return.
\<close>

lemma tolerant_branch_needs_ErrSingular:
  "calculateTheta (\<lambda>A. (\<lambda>i j. 0, Some ErrSingular)) [[- 1, 1], [- 2, 2 :: real]] [1, 2, 4]
     = Some (Some [[0], [0]], Some (ErrMat ErrSingular))
   \<and> Predict of_int (\<lambda>A. (\<lambda>i j. 0, Some ErrSingular))
         \<lparr>Data = [[1, 0], [2, 1], [4, 2 :: real]],
          Params = \<lparr>AutoregressiveLags = 1, ExternalInputLags = 0, StepSize = 1\<rparr>\<rparr> 2
       = Some (Some [[0, 1], [1, 2], [2, 0], [3, 0], [4, 0]], Some (ErrMat ErrSingular))"
  by code_simp


section \<open>The normal equations\<close>

subsection \<open>Matrix products in exact arithmetic\<close>

lemma dims_ok_hd: "dims_ok M r c \<Longrightarrow> length (hd M) = c \<and> M \<noteq> []"
  by (auto simp: dims_ok_def)

lemma dims_ok_pos: "dims_ok M r c \<Longrightarrow> 0 < r \<and> 0 < c"
  by (simp add: dims_ok_def)

lemma dims_ok_length: "dims_ok M r c \<Longrightarrow> length M = r"
  by (simp add: dims_ok_def)

lemma dims_ok_nth: "dims_ok M r c \<Longrightarrow> i < r \<Longrightarrow> length (M ! i) = c"
  by (auto simp: dims_ok_def)

lemma wf_dense_dims_ok:
  assumes "wf_dense M"
  shows "dims_ok M (length M) (length (hd M))"
proof -
  from assms have ne: "M \<noteq> []" "hd M \<noteq> []" and all: "\<forall>r \<in> set M. length r = length (hd M)"
    unfolding wf_dense_def by blast+
  from ne have "0 < length M" and "0 < length (hd M)" by simp_all
  with all show ?thesis unfolding dims_ok_def by blast
qed

lemma dense_eqI:
  assumes "dims_ok A m n" and "dims_ok B m n"
    and "\<And>i j. i < m \<Longrightarrow> j < n \<Longrightarrow> A ! i ! j = B ! i ! j"
  shows "A = B"
proof (rule nth_equalityI)
  show "length A = length B" using assms(1,2) by (simp add: dims_ok_def)
  fix i assume "i < length A"
  then have i: "i < m" using assms(1) by (simp add: dims_ok_def)
  show "A ! i = B ! i"
  proof (rule nth_equalityI)
    show "length (A ! i) = length (B ! i)"
      using dims_ok_nth [OF assms(1) i] dims_ok_nth [OF assms(2) i] by simp
    fix j assume "j < length (A ! i)"
    then have "j < n" using dims_ok_nth [OF assms(1) i] by simp
    with i show "A ! i ! j = B ! i ! j" by (rule assms(3))
  qed
qed

lemma foldl_dot:
  fixes a :: "'a::semiring_0"
  shows "foldl (\<lambda>s (x, y). s + x * y) a zs = a + sum_list (map (\<lambda>(x, y). x * y) zs)"
  by (induction zs arbitrary: a) (auto simp: add.assoc)

lemma dot_sum:
  fixes xs :: "('a::semiring_0) list"
  assumes "length xs = length ys"
  shows "dot xs ys = (\<Sum>k<length xs. xs ! k * ys ! k)"
proof -
  have "sum_list (map (\<lambda>(x, y). x * y) (zip xs ys))
      = (\<Sum>k = 0..<length (map (\<lambda>(x, y). x * y) (zip xs ys)). map (\<lambda>(x, y). x * y) (zip xs ys) ! k)"
    by (rule sum_list_sum_nth)
  also have "\<dots> = (\<Sum>k = 0..<length xs. xs ! k * ys ! k)"
    using assms by (intro sum.cong) simp_all
  finally show ?thesis
    by (simp add: dot_def foldl_dot atLeast0LessThan)
qed

lemma mat_mul_nth:
  fixes A :: "('a::semiring_0) dense"
  assumes "dims_ok A m n" and "dims_ok B n p" and "i < m" and "j < p"
  shows "mat_mul A B ! i ! j = (\<Sum>k<n. A ! i ! k * B ! k ! j)"
proof -
  have lA: "length A = m" and lB: "length B = n" and hB: "length (hd B) = p"
    using assms(1,2) dims_ok_hd [OF assms(2)] by (simp_all add: dims_ok_def)
  have row: "length (A ! i) = n" using dims_ok_nth [OF assms(1,3)] .
  have "mat_mul A B ! i ! j = dot (A ! i) (column B j)"
    using assms(3,4) lA hB by (simp add: mat_mul_def)
  also have "\<dots> = (\<Sum>k<length (A ! i). A ! i ! k * column B j ! k)"
    using row lB by (intro dot_sum) (simp add: column_def)
  also have "\<dots> = (\<Sum>k<n. A ! i ! k * B ! k ! j)"
    using row lB by (intro sum.cong) (simp_all add: column_def)
  finally show ?thesis .
qed

lemma dims_ok_mat_mul:
  assumes "dims_ok A m n" and "dims_ok B n p"
  shows "dims_ok (mat_mul A B) m p"
  using assms dims_ok_hd [OF assms(2)] by (auto simp: dims_ok_def mat_mul_def)

lemma mat_mul_assoc:
  fixes A :: "('a::semiring_0) dense"
  assumes A: "dims_ok A m n" and B: "dims_ok B n p" and C: "dims_ok C p q"
  shows "mat_mul (mat_mul A B) C = mat_mul A (mat_mul B C)"
proof (rule dense_eqI)
  note AB = dims_ok_mat_mul [OF A B] and BC = dims_ok_mat_mul [OF B C]
  show "dims_ok (mat_mul (mat_mul A B) C) m q" using AB C by (rule dims_ok_mat_mul)
  show "dims_ok (mat_mul A (mat_mul B C)) m q" using A BC by (rule dims_ok_mat_mul)
  fix i j assume i: "i < m" and j: "j < q"
  have "mat_mul (mat_mul A B) C ! i ! j = (\<Sum>l<p. mat_mul A B ! i ! l * C ! l ! j)"
    using AB C i j by (rule mat_mul_nth)
  also have "\<dots> = (\<Sum>l<p. (\<Sum>k<n. A ! i ! k * B ! k ! l) * C ! l ! j)"
    using mat_mul_nth [OF A B i] by simp
  also have "\<dots> = (\<Sum>l<p. \<Sum>k<n. A ! i ! k * (B ! k ! l * C ! l ! j))"
    by (simp add: sum_distrib_right mult.assoc)
  also have "\<dots> = (\<Sum>k<n. \<Sum>l<p. A ! i ! k * (B ! k ! l * C ! l ! j))"
    by (rule sum.swap)
  also have "\<dots> = (\<Sum>k<n. A ! i ! k * (\<Sum>l<p. B ! k ! l * C ! l ! j))"
    by (simp add: sum_distrib_left)
  also have "\<dots> = (\<Sum>k<n. A ! i ! k * mat_mul B C ! k ! j)"
    using mat_mul_nth [OF B C _ j] by simp
  also have "\<dots> = mat_mul A (mat_mul B C) ! i ! j"
    using mat_mul_nth [OF A BC i j] by simp
  finally show "mat_mul (mat_mul A B) C ! i ! j = mat_mul A (mat_mul B C) ! i ! j" .
qed

lemma dims_ok_identity: "0 < n \<Longrightarrow> dims_ok (identity n) n n"
  by (auto simp: dims_ok_def identity_def)

lemma identity_nth: "i < n \<Longrightarrow> j < n \<Longrightarrow> identity n ! i ! j = (if i = j then 1 else 0)"
  by (simp add: identity_def)

lemma mat_mul_identity_right:
  fixes A :: "('a::semiring_1) dense"
  assumes A: "dims_ok A m n"
  shows "mat_mul A (identity n) = A"
proof (rule dense_eqI)
  have n: "0 < n" using A by (simp add: dims_ok_def)
  note I = dims_ok_identity [OF n]
  show "dims_ok (mat_mul A (identity n)) m n" using A I by (rule dims_ok_mat_mul)
  show "dims_ok A m n" by (rule A)
  fix i j assume i: "i < m" and j: "j < n"
  have "mat_mul A (identity n) ! i ! j = (\<Sum>k<n. A ! i ! k * identity n ! k ! j)"
    using A I i j by (rule mat_mul_nth)
  also have "\<dots> = (\<Sum>k<n. if k = j then A ! i ! j else 0)"
    using j by (intro sum.cong) (simp_all add: identity_nth)
  also have "\<dots> = A ! i ! j" using j by simp
  finally show "mat_mul A (identity n) ! i ! j = A ! i ! j" .
qed

lemma mat_mul_identity_left:
  fixes A :: "('a::semiring_1) dense"
  assumes A: "dims_ok A m n"
  shows "mat_mul (identity m) A = A"
proof (rule dense_eqI)
  have m: "0 < m" using A by (simp add: dims_ok_def)
  note I = dims_ok_identity [OF m]
  show "dims_ok (mat_mul (identity m) A) m n" using I A by (rule dims_ok_mat_mul)
  show "dims_ok A m n" by (rule A)
  fix i j assume i: "i < m" and j: "j < n"
  have "mat_mul (identity m) A ! i ! j = (\<Sum>k<m. identity m ! i ! k * A ! k ! j)"
    using I A i j by (rule mat_mul_nth)
  also have "\<dots> = (\<Sum>k<m. if k = i then A ! i ! j else 0)"
    using i by (intro sum.cong) (auto simp: identity_nth)
  also have "\<dots> = A ! i ! j" using i by simp
  finally show "mat_mul (identity m) A ! i ! j = A ! i ! j" .
qed


subsection \<open>The normal equations\<close>

lemma dims_ok_T:
  assumes "dims_ok M r c"
  shows "dims_ok (T M) c r"
proof -
  from dims_ok_hd [OF assms] assms show ?thesis
    by (auto simp: dims_ok_def T_def column_def)
qed

lemma dims_ok_tabulate: "0 < r \<Longrightarrow> 0 < c \<Longrightarrow> dims_ok (tabulate r c e) r c"
  by (auto simp: dims_ok_def tabulate_def)

lemma dims_ok_tail_column:
  "0 < R \<Longrightarrow> R \<le> length Y \<Longrightarrow> dims_ok (tail_column Y R) R 1"
  by (auto simp: dims_ok_def tail_column_def)

lemma square_solves:
  fixes phi :: "('a::semiring_1) dense"
  assumes dphi: "dims_ok phi n n" and dP: "dims_ok P n n" and dy: "dims_ok y n 1"
    and pP: "mat_mul phi P = identity n"
    and dE: "dims_ok E n n" and EG: "mat_mul E (mat_mul (T phi) phi) = identity n"
  shows "mat_mul phi (mat_mul E (mat_mul (T phi) y)) = y"
proof -
  let ?M = "mat_mul (mat_mul phi E) (T phi)"
  note dT = dims_ok_T [OF dphi]
  note dG = dims_ok_mat_mul [OF dT dphi]
  note du = dims_ok_mat_mul [OF dT dy]
  note dphiE = dims_ok_mat_mul [OF dphi dE]
  note dM = dims_ok_mat_mul [OF dphiE dT]
  have "mat_mul ?M phi = mat_mul (mat_mul phi E) (mat_mul (T phi) phi)"
    using dphiE dT dphi by (rule mat_mul_assoc)
  also have "\<dots> = mat_mul phi (mat_mul E (mat_mul (T phi) phi))"
    using dphi dE dG by (rule mat_mul_assoc)
  also have "\<dots> = phi"
    unfolding EG using dphi by (rule mat_mul_identity_right)
  finally have Mphi: "mat_mul ?M phi = phi" .
  have "?M = mat_mul ?M (identity n)"
    using mat_mul_identity_right [OF dM] by simp
  also have "\<dots> = mat_mul (mat_mul ?M phi) P"
    unfolding pP [symmetric] using mat_mul_assoc [OF dM dphi dP] by simp
  also have "\<dots> = identity n" unfolding Mphi by (rule pP)
  finally have M: "?M = identity n" .
  have "mat_mul phi (mat_mul E (mat_mul (T phi) y)) = mat_mul (mat_mul phi E) (mat_mul (T phi) y)"
    using mat_mul_assoc [OF dphi dE du] by simp
  also have "\<dots> = mat_mul ?M y"
    using mat_mul_assoc [OF dphiE dT dy] by simp
  also have "\<dots> = y"
    unfolding M using dy by (rule mat_mul_identity_left)
  finally show ?thesis .
qed

text \<open>
  With an exact inversion the estimator returns the least-squares solution: for a
  design matrix \<open>phi\<close> with \<open>R\<close> rows, a series \<open>Y\<close> of at least \<open>R\<close> values and an inverse
  \<open>B\<close> of \<open>phi\<^sup>T phi\<close>, \<open>calculateTheta\<close> returns \<open>theta = B phi\<^sup>T yTail\<close> and no error,
  \<open>yTail\<close> the last \<open>R\<close> entries of \<open>Y\<close>; and when \<open>phi\<close> is square and has an inverse,
  \<open>phi theta = yTail\<close>.
\<close>

lemma calculateTheta_with_exact_inverse:
  fixes phi :: "('a::semiring_1) dense"
  assumes wf: "wf_dense phi" and len: "length phi \<le> length Y"
    and contract: "inverts_exactly Inverse (mat_mul (T phi) phi)"
    and nonsingular: "inverse_of B (mat_mul (T phi) phi)"
  shows "calculateTheta Inverse phi Y
       = Some (Some (mat_mul B (mat_mul (T phi) (tail_column Y (length phi)))), None)
     \<and> (length phi = length (hd phi) \<and> (\<exists>P. inverse_of P phi) \<longrightarrow>
           mat_mul phi (mat_mul B (mat_mul (T phi) (tail_column Y (length phi))))
             = tail_column Y (length phi))"
proof -
  let ?R = "length phi" and ?C = "length (hd phi)"
  let ?G = "mat_mul (T phi) phi"
  let ?y = "tail_column Y ?R"
  note dphi = wf_dense_dims_ok [OF wf]
  have R: "0 < ?R" and C: "0 < ?C"
    using dims_ok_pos [OF dphi] by blast+
  note dT = dims_ok_T [OF dphi]
  note dy = dims_ok_tail_column [OF R len]
  note dG = dims_ok_mat_mul [OF dT dphi]
  have lG: "length ?G = ?C" using dG by (rule dims_ok_length)
  from nonsingular lG have dB: "dims_ok B ?C ?C" and BG: "mat_mul B ?G = identity ?C"
    by (simp_all add: inverse_of_def)
  from contract nonsingular lG have ok: "snd (Inverse ?G) = None"
    and E: "tabulate ?C ?C (fst (Inverse ?G)) = B"
    unfolding inverts_exactly_def by auto
  have ct: "calculateTheta Inverse phi Y = Some (Some (mat_mul B (mat_mul (T phi) ?y)), None)"
    using calculateTheta_result [OF wf len, of Inverse] ok E by (simp add: Let_def)
  have sq: "mat_mul phi (mat_mul B (mat_mul (T phi) ?y)) = ?y"
    if s: "?R = ?C" and P: "inverse_of P phi" for P
  proof -
    from P have dP: "dims_ok P ?R ?R" and pP: "mat_mul phi P = identity ?R"
      by (simp_all add: inverse_of_def)
    have "dims_ok phi ?C ?C" using dphi by (simp only: s)
    moreover have "dims_ok P ?C ?C" using dP by (simp only: s)
    moreover have "dims_ok ?y ?C 1" using dy by (simp only: s)
    moreover have "mat_mul phi P = identity ?C" using pP by (simp only: s)
    ultimately show ?thesis
      using dB BG by (intro square_solves [where n = ?C and P = P])
  qed
  from ct sq show ?thesis by blast
qed


text \<open>
  Claim C5. For every design matrix \<open>phi\<close> with \<open>R\<close> rows and every series \<open>Y\<close> of at
  least \<open>R\<close> values such that \<open>phi\<^sup>T phi\<close> is non-singular, the estimator returns
  \<open>theta = (phi\<^sup>T phi)\<^sup>-\<^sup>1 phi\<^sup>T yTail\<close>, and \<open>phi theta = yTail\<close> when \<open>phi\<close> is square and
  non-singular. The code does not do so for the square matrix \<open>phi\<close> below. Both \<open>phi\<close>
  and \<open>phi\<^sup>T phi\<close> have an inverse, and the vector the claim describes is
  \<open>(-2999999999 / 999999999, -2 / 999999999)\<close>; but \<open>phi\<^sup>T phi\<close> is ill-conditioned,
  \<^verbatim>\<open>Inverse\<close> reports a \<^verbatim>\<open>mat.Condition\<close> error, the guard lets only \<^verbatim>\<open>mat.ErrSingular\<close>
  through, and \<open>calculateTheta\<close> returns \<^verbatim>\<open>nil\<close> with the wrapped error.
\<close>

theorem calculateTheta_near_singular_returns_nil:
  "mat_mul [[- 1, 1000000000], [- 1, 1 :: real]]
       [[1 / 999999999, - 1000000000 / 999999999], [1 / 999999999, - 1 / 999999999]]
     = identity 2
   \<and> mat_mul [[1 / 999999999, - 1000000000 / 999999999], [1 / 999999999, - 1 / 999999999]]
       [[- 1, 1000000000], [- 1, 1 :: real]]
     = identity 2
   \<and> mat_mul (T [[- 1, 1000000000], [- 1, 1 :: real]]) [[- 1, 1000000000], [- 1, 1]]
     = [[2, - 1000000001], [- 1000000001, 1000000000000000001]]
   \<and> mat_mul [[1000000000000000001 / 999999998000000001, 1000000001 / 999999998000000001],
               [1000000001 / 999999998000000001, 2 / 999999998000000001]]
       [[2, - 1000000001], [- 1000000001, 1000000000000000001 :: real]]
     = identity 2
   \<and> mat_mul [[2, - 1000000001], [- 1000000001, 1000000000000000001 :: real]]
       [[1000000000000000001 / 999999998000000001, 1000000001 / 999999998000000001],
        [1000000001 / 999999998000000001, 2 / 999999998000000001]]
     = identity 2
   \<and> tail_column [1, 1, 3 :: real] 2 = [[1], [3]]
   \<and> mat_mul [[1000000000000000001 / 999999998000000001, 1000000001 / 999999998000000001],
               [1000000001 / 999999998000000001, 2 / 999999998000000001]]
       (mat_mul (T [[- 1, 1000000000], [- 1, 1 :: real]]) (tail_column [1, 1, 3] 2))
     = [[- 2999999999 / 999999999], [- 2 / 999999999]]
   \<and> mat_mul [[- 1, 1000000000], [- 1, 1 :: real]]
       [[- 2999999999 / 999999999], [- 2 / 999999999]]
     = [[1], [3]]
   \<and> calculateTheta (\<lambda>A. (\<lambda>i j. 0, Some ErrOther)) [[- 1, 1000000000], [- 1, 1 :: real]] [1, 1, 3]
     = Some (None, Some (ErrInversion ErrOther))"
  by code_simp

end
